theory Spec2Isabelle
  imports Main "HOL-Library.Sublist"
begin

section \<open>JavaScript strings\<close>

text \<open>
  A JavaScript string is a sequence of UTF-16 code units. A code unit is modelled by its
  number, a string by the list of its code units, so \<open>length\<close>, \<open>take\<close> and
  \<open>drop\<close> count what \<^verbatim>\<open>indexOf\<close> and \<^verbatim>\<open>substring\<close> count. The literals of the
  source are ASCII and are written through \<open>ascii\<close>; \<open>LF\<close> is the escape \<^verbatim>\<open>\n\<close>.
\<close>

type_synonym codeunit = nat
type_synonym jsstring = "codeunit list"

definition ascii :: "string \<Rightarrow> jsstring" where
  "ascii s = map of_char s"

definition LF :: jsstring where
  "LF = [0x0A]"

text \<open>
  \<^verbatim>\<open>String.prototype.trim\<close> removes the code units of WhiteSpace and LineTerminator
  (ECMA-262) from both ends: TAB, LF, VT, FF, CR, SP, NBSP, the space separators
  U+1680, U+2000..U+200A, U+202F, U+205F, U+3000, the separators U+2028 and U+2029, and
  U+FEFF.
\<close>

definition isWhiteSpace :: "codeunit \<Rightarrow> bool" where
  "isWhiteSpace c \<longleftrightarrow>
     (0x09 \<le> c \<and> c \<le> 0x0D) \<or> c = 0x20 \<or> c = 0xA0 \<or> c = 0x1680 \<or>
     (0x2000 \<le> c \<and> c \<le> 0x200A) \<or> c = 0x2028 \<or> c = 0x2029 \<or> c = 0x202F \<or>
     c = 0x205F \<or> c = 0x3000 \<or> c = 0xFEFF"

definition trim :: "jsstring \<Rightarrow> jsstring" where
  "trim s = rev (dropWhile isWhiteSpace (rev (dropWhile isWhiteSpace s)))"

text \<open>
  \<^verbatim>\<open>s.indexOf(p)\<close>: the least index at which \<open>p\<close> starts in \<open>s\<close>; \<open>None\<close> is
  the result \<^verbatim>\<open>-1\<close>.
\<close>

fun indexOf :: "'a list \<Rightarrow> 'a list \<Rightarrow> nat option" where
  "indexOf [] p = (if p = [] then Some 0 else None)"
| "indexOf (x # xs) p = (if prefix p (x # xs) then Some 0 else map_option Suc (indexOf xs p))"

text \<open>
  \<^verbatim>\<open>s.replace(p, '')\<close> with a string pattern: the first occurrence of \<open>p\<close> is cut
  out, and \<open>s\<close> is returned as it is when there is none.
\<close>

definition replaceFirst :: "'a list \<Rightarrow> 'a list \<Rightarrow> 'a list" where
  "replaceFirst p s =
     (case indexOf s p of None \<Rightarrow> s | Some i \<Rightarrow> take i s @ drop (i + length p) s)"

text \<open>
  \<^verbatim>\<open>s.replace(/p/g, '')\<close> for a pattern that is a literal text: scanning from the left,
  each occurrence found is skipped and the scan goes on behind it.
\<close>

function replaceGlobal :: "'a list \<Rightarrow> 'a list \<Rightarrow> 'a list" where
  "replaceGlobal p [] = []"
| "replaceGlobal p (x # xs) =
     (if p \<noteq> [] \<and> prefix p (x # xs) then replaceGlobal p (drop (length p) (x # xs))
      else x # replaceGlobal p xs)"
  by pat_completeness auto
termination
  by (relation "measure (\<lambda>(p, s). length s)") (auto simp: prefix_def)

text \<open>
  What the scan is meant to compute, said without the scan: \<open>stripsTo p s r\<close> holds when
  \<open>r\<close> is \<open>s\<close> with every occurrence of \<open>p\<close> cut out, the occurrences being taken
  from the left and not overlapping. Either \<open>p\<close> does not occur in \<open>s\<close>, or \<open>s\<close> is
  a text \<open>u\<close> in which \<open>p\<close> starts nowhere, then \<open>p\<close>, then a rest that is treated in
  the same way.
\<close>

inductive stripsTo :: "'a list \<Rightarrow> 'a list \<Rightarrow> 'a list \<Rightarrow> bool" for p :: "'a list" where
  none: "\<not> sublist p s \<Longrightarrow> stripsTo p s s"
| step: "\<forall>j<length u. \<not> prefix p (drop j (u @ p @ rest)) \<Longrightarrow> stripsTo p rest r
         \<Longrightarrow> stripsTo p (u @ p @ rest) (u @ r)"

text \<open>
  The two regular expressions of the source, \<^verbatim>\<open>/\{[\s\S]*?\}/\<close> and
  \<^verbatim>\<open>/```html\n([\s\S]*?)\n```/\<close>, have the shape: a literal opener, any code units,
  taken lazily, a literal closer. \<open>lazyUntil\<close> is the lazy quantifier followed by the
  closer: it tries the closer after 0, 1, 2, ... code units and returns the code units
  taken and the text behind the closer. \<open>matchLazy\<close> is the search of
  \<^verbatim>\<open>String.prototype.match\<close> (and of \<^verbatim>\<open>replace\<close> with a regular expression without the
  global flag): it tries the start positions from the left and returns, for the first one
  at which the expression matches, the text before the match, the lazy group, and the text
  after the match; the match itself is opener, group, closer.
\<close>

fun lazyUntil :: "'a list \<Rightarrow> 'a list \<Rightarrow> ('a list \<times> 'a list) option" where
  "lazyUntil cl [] = (if cl = [] then Some ([], []) else None)"
| "lazyUntil cl (x # xs) =
     (if prefix cl (x # xs) then Some ([], drop (length cl) (x # xs))
      else map_option (\<lambda>(g, r). (x # g, r)) (lazyUntil cl xs))"

definition matchAt :: "'a list \<Rightarrow> 'a list \<Rightarrow> 'a list \<Rightarrow> ('a list \<times> 'a list) option" where
  "matchAt opn cl s = (if prefix opn s then lazyUntil cl (drop (length opn) s) else None)"

fun matchLazy :: "'a list \<Rightarrow> 'a list \<Rightarrow> 'a list \<Rightarrow> ('a list \<times> 'a list \<times> 'a list) option" where
  "matchLazy opn cl [] = map_option (\<lambda>(g, r). ([], g, r)) (matchAt opn cl [])"
| "matchLazy opn cl (x # xs) =
     (case matchAt opn cl (x # xs) of
        Some (g, r) \<Rightarrow> Some ([], g, r)
      | None \<Rightarrow> map_option (\<lambda>(b, g, r). (x # b, g, r)) (matchLazy opn cl xs))"

section \<open>\<^verbatim>\<open>JSON.parse\<close>\<close>

text \<open>
  \<^verbatim>\<open>JSON.parse\<close> is a built-in of the language. It is modelled by the JSON grammar
  (ECMA-404): a lexer and a parser with an explicit stack of the open containers, \<open>None\<close>
  being the \<^verbatim>\<open>SyntaxError\<close> it throws. The value is the syntax tree: a number is kept
  as its literal (the double it denotes is not computed) and an object as the list of its
  members in the order of the text.
\<close>

datatype json =
    JNull
  | JBool bool
  | JNumber jsstring
  | JString jsstring
  | JArray "json list"
  | JObject "(jsstring \<times> json) list"

datatype token =
    TLBrace | TRBrace | TLBrack | TRBrack | TColon | TComma
  | TString jsstring | TNumber jsstring | TTrue | TFalse | TNull

definition isJsonWhiteSpace :: "codeunit \<Rightarrow> bool" where
  "isJsonWhiteSpace c \<longleftrightarrow> c = 0x09 \<or> c = 0x0A \<or> c = 0x0D \<or> c = 0x20"

definition isDigit :: "codeunit \<Rightarrow> bool" where
  "isDigit c \<longleftrightarrow> 0x30 \<le> c \<and> c \<le> 0x39"

definition hexValue :: "codeunit \<Rightarrow> nat option" where
  "hexValue c =
     (if 0x30 \<le> c \<and> c \<le> 0x39 then Some (c - 0x30)
      else if 0x41 \<le> c \<and> c \<le> 0x46 then Some (c - 0x41 + 10)
      else if 0x61 \<le> c \<and> c \<le> 0x66 then Some (c - 0x61 + 10)
      else None)"

text \<open>The one-letter escapes: quote, backslash, slash, b, f, n, r, t.\<close>

definition unescape :: "codeunit \<Rightarrow> codeunit option" where
  "unescape e =
     (if e = 0x22 \<or> e = 0x5C \<or> e = 0x2F then Some e
      else if e = 0x62 then Some 0x08
      else if e = 0x66 then Some 0x0C
      else if e = 0x6E then Some 0x0A
      else if e = 0x72 then Some 0x0D
      else if e = 0x74 then Some 0x09
      else None)"

definition consChar :: "codeunit \<Rightarrow> (jsstring \<times> jsstring) option \<Rightarrow> (jsstring \<times> jsstring) option" where
  "consChar c r = map_option (\<lambda>(v, rest). (c # v, rest)) r"

text \<open>
  The text behind an opening quote: the value of the string literal and the text behind
  its closing quote.
\<close>

fun lexString :: "jsstring \<Rightarrow> (jsstring \<times> jsstring) option" where
  "lexString [] = None"
| "lexString (c # cs) =
     (if c = 0x22 then Some ([], cs)
      else if c = 0x5C then
        (case cs of
           [] \<Rightarrow> None
         | e # es \<Rightarrow>
             if e = 0x75 then
               (case es of
                  h1 # h2 # h3 # h4 # rest \<Rightarrow>
                    (case (hexValue h1, hexValue h2, hexValue h3, hexValue h4) of
                       (Some a, Some b, Some c', Some d) \<Rightarrow>
                         consChar (((a * 16 + b) * 16 + c') * 16 + d) (lexString rest)
                     | _ \<Rightarrow> None)
                | _ \<Rightarrow> None)
             else
               (case unescape e of
                  None \<Rightarrow> None
                | Some u \<Rightarrow> consChar u (lexString es)))
      else if c < 0x20 then None
      else consChar c (lexString cs))"

text \<open>A number: optional minus, integer part without a leading zero, fraction, exponent.\<close>

definition optionalSign :: "(codeunit \<Rightarrow> bool) \<Rightarrow> jsstring \<Rightarrow> jsstring \<times> jsstring" where
  "optionalSign isSign s =
     (case s of c # r \<Rightarrow> if isSign c then ([c], r) else ([], s) | [] \<Rightarrow> ([], s))"

definition lexInt :: "jsstring \<Rightarrow> (jsstring \<times> jsstring) option" where
  "lexInt s =
     (let ds = takeWhile isDigit s
      in if ds = [] \<or> (hd ds = 0x30 \<and> length ds > 1) then None
         else Some (ds, dropWhile isDigit s))"

definition lexFrac :: "jsstring \<Rightarrow> (jsstring \<times> jsstring) option" where
  "lexFrac s =
     (case s of
        c # r \<Rightarrow>
          if c = 0x2E then
            (if takeWhile isDigit r = [] then None
             else Some (c # takeWhile isDigit r, dropWhile isDigit r))
          else Some ([], s)
      | [] \<Rightarrow> Some ([], s))"

definition lexExp :: "jsstring \<Rightarrow> (jsstring \<times> jsstring) option" where
  "lexExp s =
     (case s of
        c # r \<Rightarrow>
          if c = 0x65 \<or> c = 0x45 then
            (case optionalSign (\<lambda>d. d = 0x2B \<or> d = 0x2D) r of
               (sign, r1) \<Rightarrow>
                 if takeWhile isDigit r1 = [] then None
                 else Some (c # sign @ takeWhile isDigit r1, dropWhile isDigit r1))
          else Some ([], s)
      | [] \<Rightarrow> Some ([], s))"

definition lexNumber :: "jsstring \<Rightarrow> (jsstring \<times> jsstring) option" where
  "lexNumber s =
     (case optionalSign (\<lambda>d. d = 0x2D) s of
        (sign, s1) \<Rightarrow>
          (case lexInt s1 of
             None \<Rightarrow> None
           | Some (i, s2) \<Rightarrow>
               (case lexFrac s2 of
                  None \<Rightarrow> None
                | Some (f, s3) \<Rightarrow>
                    (case lexExp s3 of
                       None \<Rightarrow> None
                     | Some (e, s4) \<Rightarrow> Some (sign @ i @ f @ e, s4)))))"

lemma lexString_length: "lexString s = Some (v, r) \<Longrightarrow> length r < length s"
proof (induction s arbitrary: v r rule: lexString.induct)
  case 1
  then show ?case by simp
next
  case (2 c cs)
  then show ?case
    by (fastforce simp: consChar_def split: if_splits list.splits option.splits)
qed

lemma optionalSign_append: "optionalSign P s = (v, r) \<Longrightarrow> s = v @ r"
  by (auto simp: optionalSign_def split: list.splits if_splits)

lemma lexInt_append: "lexInt s = Some (v, r) \<Longrightarrow> s = v @ r \<and> v \<noteq> []"
  by (auto simp: lexInt_def Let_def split: if_splits)

lemma lexFrac_append: "lexFrac s = Some (v, r) \<Longrightarrow> s = v @ r"
  by (auto simp: lexFrac_def split: list.splits if_splits)

lemma lexExp_append: "lexExp s = Some (v, r) \<Longrightarrow> s = v @ r"
  by (auto simp: lexExp_def split: list.splits if_splits prod.splits dest: optionalSign_append)

lemma lexNumber_length: "lexNumber s = Some (v, r) \<Longrightarrow> length r < length s"
  by (fastforce simp: lexNumber_def split: prod.splits option.splits
      dest: optionalSign_append lexInt_append lexFrac_append lexExp_append)

function lexJson :: "jsstring \<Rightarrow> token list option" where
  "lexJson [] = Some []"
| "lexJson (c # cs) =
     (if isJsonWhiteSpace c then lexJson cs
      else if c = 0x7B then map_option (Cons TLBrace) (lexJson cs)
      else if c = 0x7D then map_option (Cons TRBrace) (lexJson cs)
      else if c = 0x5B then map_option (Cons TLBrack) (lexJson cs)
      else if c = 0x5D then map_option (Cons TRBrack) (lexJson cs)
      else if c = 0x3A then map_option (Cons TColon) (lexJson cs)
      else if c = 0x2C then map_option (Cons TComma) (lexJson cs)
      else if c = 0x22 then
        (case lexString cs of
           None \<Rightarrow> None
         | Some (v, r) \<Rightarrow> map_option (Cons (TString v)) (lexJson r))
      else if c = 0x2D \<or> isDigit c then
        (case lexNumber (c # cs) of
           None \<Rightarrow> None
         | Some (v, r) \<Rightarrow> map_option (Cons (TNumber v)) (lexJson r))
      else if prefix (ascii ''true'') (c # cs) then map_option (Cons TTrue) (lexJson (drop 3 cs))
      else if prefix (ascii ''false'') (c # cs) then map_option (Cons TFalse) (lexJson (drop 4 cs))
      else if prefix (ascii ''null'') (c # cs) then map_option (Cons TNull) (lexJson (drop 3 cs))
      else None)"
  by pat_completeness auto
termination
  by (relation "measure length") (auto dest: lexString_length lexNumber_length)

text \<open>
  The parser reads the tokens from the left. Its state is what it expects next and the
  stack of the containers that are open, the innermost first.
\<close>

datatype frame =
    InArray "json list"
  | InObject "(jsstring \<times> json) list"
  | InMember "(jsstring \<times> json) list" jsstring

datatype expect =
    Value | ValueOrEndArray | KeyOrEndObject | Key | Colon jsstring | CommaOrEnd | Finished json

text \<open>A value is complete: it goes into the innermost open container, or it is the result.\<close>

fun complete :: "json \<Rightarrow> frame list \<Rightarrow> (expect \<times> frame list) option" where
  "complete v [] = Some (Finished v, [])"
| "complete v (InArray es # st) = Some (CommaOrEnd, InArray (es @ [v]) # st)"
| "complete v (InMember ms k # st) = Some (CommaOrEnd, InObject (ms @ [(k, v)]) # st)"
| "complete v (InObject ms # st) = None"

definition startValue :: "token \<Rightarrow> frame list \<Rightarrow> (expect \<times> frame list) option" where
  "startValue t st =
     (case t of
        TLBrace \<Rightarrow> Some (KeyOrEndObject, InObject [] # st)
      | TLBrack \<Rightarrow> Some (ValueOrEndArray, InArray [] # st)
      | TString s \<Rightarrow> complete (JString s) st
      | TNumber n \<Rightarrow> complete (JNumber n) st
      | TTrue \<Rightarrow> complete (JBool True) st
      | TFalse \<Rightarrow> complete (JBool False) st
      | TNull \<Rightarrow> complete JNull st
      | _ \<Rightarrow> None)"

definition parseStep :: "expect \<times> frame list \<Rightarrow> token \<Rightarrow> (expect \<times> frame list) option" where
  "parseStep s t =
     (case s of (e, st) \<Rightarrow>
        (case e of
           Value \<Rightarrow> startValue t st
         | ValueOrEndArray \<Rightarrow>
             (case (st, t) of
                (InArray es # st', TRBrack) \<Rightarrow> complete (JArray es) st'
              | _ \<Rightarrow> startValue t st)
         | KeyOrEndObject \<Rightarrow>
             (case (st, t) of
                (InObject ms # st', TRBrace) \<Rightarrow> complete (JObject ms) st'
              | (_, TString k) \<Rightarrow> Some (Colon k, st)
              | _ \<Rightarrow> None)
         | Key \<Rightarrow> (case t of TString k \<Rightarrow> Some (Colon k, st) | _ \<Rightarrow> None)
         | Colon k \<Rightarrow>
             (case (st, t) of
                (InObject ms # st', TColon) \<Rightarrow> Some (Value, InMember ms k # st')
              | _ \<Rightarrow> None)
         | CommaOrEnd \<Rightarrow>
             (case (st, t) of
                (InArray es # st', TComma) \<Rightarrow> Some (Value, InArray es # st')
              | (InArray es # st', TRBrack) \<Rightarrow> complete (JArray es) st'
              | (InObject ms # st', TComma) \<Rightarrow> Some (Key, InObject ms # st')
              | (InObject ms # st', TRBrace) \<Rightarrow> complete (JObject ms) st'
              | _ \<Rightarrow> None)
         | Finished v \<Rightarrow> None))"

fun parseTokens :: "expect \<times> frame list \<Rightarrow> token list \<Rightarrow> json option" where
  "parseTokens (Finished v, st) [] = Some v"
| "parseTokens s [] = None"
| "parseTokens s (t # ts) =
     (case parseStep s t of None \<Rightarrow> None | Some s' \<Rightarrow> parseTokens s' ts)"

definition JSON_parse :: "jsstring \<Rightarrow> json option" where
  "JSON_parse s = (case lexJson s of None \<Rightarrow> None | Some ts \<Rightarrow> parseTokens (Value, []) ts)"

section \<open>The response splitter (services/geminiService.ts, \<^verbatim>\<open>parseResponse\<close>)\<close>

definition SEPARATOR :: jsstring where
  "SEPARATOR = ascii ''---SEPARATOR---''"

definition FENCE_JSON :: jsstring where
  "FENCE_JSON = ascii ''```json''"

definition FENCE :: jsstring where
  "FENCE = ascii ''```''"

text \<open>
  The object \<^verbatim>\<open>{ text: markdownText, scores }\<close> that \<^verbatim>\<open>parseResponse\<close> returns. The
  value \<^verbatim>\<open>null\<close> of \<^verbatim>\<open>scores\<close> is \<open>JNull\<close>.
\<close>

record SplitResponse =
  markdownText :: jsstring
  scores :: json

text \<open>
  \<^verbatim>\<open>const cleanJson = jsonStr.replace(/```json/g, '').replace(/```/g, '').trim()\<close>
\<close>

definition cleanJson :: "jsstring \<Rightarrow> jsstring" where
  "cleanJson jsonStr = trim (replaceGlobal FENCE (replaceGlobal FENCE_JSON jsonStr))"

text \<open>
  Both variables start as \<^verbatim>\<open>null\<close> and \<^verbatim>\<open>fullText\<close>, and the \<^verbatim>\<open>catch\<close> block
  only logs: when \<^verbatim>\<open>JSON.parse\<close> throws, the function returns the variables as they
  are at that moment. In the separator branch \<^verbatim>\<open>markdownText\<close> has been assigned
  before the parse; in the other branch it is assigned after it.
\<close>

definition parseResponse :: "jsstring \<Rightarrow> SplitResponse" where
  "parseResponse fullText =
     (case indexOf fullText SEPARATOR of
        Some separatorIndex \<Rightarrow>
          (let jsonStr = trim (take separatorIndex fullText);
               markdownText = trim (drop (separatorIndex + 15) fullText)
           in case JSON_parse (cleanJson jsonStr) of
                Some v \<Rightarrow> \<lparr>markdownText = markdownText, scores = v\<rparr>
              | None \<Rightarrow> \<lparr>markdownText = markdownText, scores = JNull\<rparr>)
      | None \<Rightarrow>
          (case matchLazy [0x7B] [0x7D] fullText of
             Some (b, g, a) \<Rightarrow>
               (let jsonMatch = [0x7B] @ g @ [0x7D]
                in case JSON_parse jsonMatch of
                     Some v \<Rightarrow>
                       \<lparr>markdownText = trim (replaceFirst jsonMatch fullText), scores = v\<rparr>
                   | None \<Rightarrow> \<lparr>markdownText = fullText, scores = JNull\<rparr>)
           | None \<Rightarrow> \<lparr>markdownText = fullText, scores = JNull\<rparr>))"

section \<open>The prompt assembler\<close>

record DesignContext =
  userContext :: jsstring
  figmaUrl :: "jsstring option"

text \<open>A string is truthy when it is not empty; an absent \<^verbatim>\<open>figmaUrl\<close> is falsy.\<close>

definition figmaLine :: "DesignContext \<Rightarrow> jsstring" where
  "figmaLine context =
     (case figmaUrl context of
        None \<Rightarrow> []
      | Some url \<Rightarrow> if url = [] then [] else ascii ''**Figma URL provided:** '' @ url @ LF)"

definition contextLine :: "DesignContext \<Rightarrow> jsstring" where
  "contextLine context =
     ascii ''**Context, Goals & Constraints:**'' @ LF @ userContext context @ LF"

text \<open>
  The prompt of the route \<^verbatim>\<open>/api/analyze\<close> (server.js). The header is the text of the
  first three statements: the request, the theme line, the note on the night theme.
\<close>

definition api_analyze_header :: "jsstring \<Rightarrow> jsstring" where
  \<open>api_analyze_header themeMode =
     (let p0 = ascii ''Please critique the attached design.'' @ LF @ LF;
          p1 = p0 @ ascii ''**Current UI Theme:** '' @ themeMode @ LF
      in p1 @ ascii ''If theme is "night", assume a dark background and adjust any design feedback for dark mode.'' @ LF @ LF)\<close>

definition api_analyze_promptText :: "DesignContext \<Rightarrow> jsstring \<Rightarrow> jsstring" where
  "api_analyze_promptText context themeMode =
     (let p2 = api_analyze_header themeMode;
          p3 = p2 @ figmaLine context
      in if userContext context \<noteq> [] then p3 @ contextLine context else p3)"

text \<open>
  The prompt of the client's own \<^verbatim>\<open>analyzeDesign\<close> (the service that calls the model
  itself), built in the same way, with a longer note and an \<^verbatim>\<open>else\<close> branch.
\<close>

datatype ThemeChoice = Day | Night

fun themeText :: "ThemeChoice \<Rightarrow> jsstring" where
  "themeText Day = ascii ''day''"
| "themeText Night = ascii ''night''"

definition INFER_NOTE :: jsstring where
  "INFER_NOTE = LF @ ascii ''(Note: No specific business or user context was provided. Please infer the likely context based on standard UI patterns for this type of interface.)''"

definition analyzeDesign_header :: "ThemeChoice \<Rightarrow> jsstring" where
  \<open>analyzeDesign_header themeMode =
     (let p0 = ascii ''Please critique the attached design.'' @ LF @ LF;
          p1 = p0 @ ascii ''**Current UI Theme:** '' @ themeText themeMode @ LF
      in p1 @ ascii ''If theme is "night", assume a dark background and adjust any design feedback (e.g. colour contrast, brightness) for dark mode. If theme is "day", assume a light background and adjust feedback for light mode.'' @ LF @ LF)\<close>

definition analyzeDesign_promptText :: "DesignContext \<Rightarrow> ThemeChoice \<Rightarrow> jsstring" where
  "analyzeDesign_promptText context themeMode =
     (let p2 = analyzeDesign_header themeMode;
          p3 = p2 @ figmaLine context
      in if userContext context \<noteq> [] \<and> length (trim (userContext context)) > 0
         then p3 @ contextLine context
         else p3 @ INFER_NOTE)"

section \<open>The chat replay builder (server.js, \<^verbatim>\<open>/api/chat\<close>)\<close>

text \<open>
  A transcript entry as it arrives in the request body. The role is a string: the
  server compares it with \<^verbatim>\<open>'user'\<close> and nothing restricts it to the two roles of
  the client's type. The field \<^verbatim>\<open>text\<close> is named \<open>text'\<close>.
\<close>

record ChatMessage =
  role :: jsstring
  text' :: jsstring

text \<open>The template \<^verbatim>\<open>`${msg.role === 'user' ? 'User' : 'Model'}: ${msg.text}\n`\<close>.\<close>

definition turnLine :: "ChatMessage \<Rightarrow> jsstring" where
  "turnLine msg =
     (if role msg = ascii ''user'' then ascii ''User'' else ascii ''Model'')
       @ ascii '': '' @ text' msg @ LF"

text \<open>One round of the \<^verbatim>\<open>forEach\<close> loop: \<^verbatim>\<open>historyStr += ...\<close>.\<close>

definition appendTurn :: "jsstring \<Rightarrow> ChatMessage \<Rightarrow> jsstring" where
  "appendTurn historyStr msg = historyStr @ turnLine msg"

definition historyStr :: "ChatMessage list \<Rightarrow> jsstring \<Rightarrow> jsstring" where
  "historyStr history message =
     (let h0 = ascii ''--- PREVIOUS CONVERSATION HISTORY ---'' @ LF;
          h1 = foldl appendTurn h0 history;
          h2 = h1 @ ascii ''--- END HISTORY ---'' @ LF @ LF
      in h2 @ ascii ''User's New Request: '' @ message)"

section \<open>The chat panel (components/ChatInterface.tsx)\<close>

definition HTML_OPEN :: jsstring where
  "HTML_OPEN = ascii ''```html'' @ LF"

definition HTML_CLOSE :: jsstring where
  "HTML_CLOSE = LF @ ascii ''```''"

text \<open>\<^verbatim>\<open>text.match(/```html\n([\s\S]*?)\n```/)\<close>, then \<^verbatim>\<open>match ? match[1] : null\<close>.\<close>

definition extractHtml :: "jsstring \<Rightarrow> jsstring option" where
  "extractHtml t =
     (case matchLazy HTML_OPEN HTML_CLOSE t of Some (b, g, a) \<Rightarrow> Some g | None \<Rightarrow> None)"

text \<open>
  The text shown for a message. \<^verbatim>\<open>htmlCode ? ... : msg.text\<close> tests a value that is a
  string or \<^verbatim>\<open>null\<close>: it is truthy when it is a string that is not empty.
\<close>

definition displayText :: "ChatMessage \<Rightarrow> jsstring" where
  "displayText msg =
     (let htmlCode = (if role msg = ascii ''model'' then extractHtml (text' msg) else None)
      in if htmlCode \<noteq> None \<and> htmlCode \<noteq> Some [] then
           (case matchLazy HTML_OPEN HTML_CLOSE (text' msg) of
              Some (b, g, a) \<Rightarrow> b @ a
            | None \<Rightarrow> text' msg)
         else text' msg)"

text \<open>
  The state of the component. \<^verbatim>\<open>handleSend\<close> is asynchronous: it updates the state,
  awaits \<^verbatim>\<open>sendChatMessage\<close>, and updates the state again. The call to the server is
  a parameter: from the history and the message it gives the reply, or \<open>Inl\<close> the error
  thrown.
\<close>

record ChatState =
  messages :: "ChatMessage list"
  input :: jsstring
  isLoading :: bool
  previewCode :: "jsstring option"

definition ERROR_TEXT :: jsstring where
  "ERROR_TEXT = ascii ''Sorry, I encountered an error communicating with the server.''"

text \<open>\<^verbatim>\<open>if (!input.trim() || isLoading) return;\<close>\<close>

definition sendBlocked :: "ChatState \<Rightarrow> bool" where
  "sendBlocked s \<longleftrightarrow> trim (input s) = [] \<or> isLoading s"

text \<open>The updates before the call: the input is cleared, the user's turn is appended.\<close>

definition handleSend_before :: "ChatState \<Rightarrow> ChatState" where
  "handleSend_before s =
     s\<lparr>input := [],
       messages := messages s @ [\<lparr>role = ascii ''user'', text' = input s\<rparr>],
       isLoading := True\<rparr>"

text \<open>The updates after the call, on the state of that moment (\<^verbatim>\<open>prev => [...prev, turn]\<close>).\<close>

definition handleSend_after :: "string + jsstring \<Rightarrow> ChatState \<Rightarrow> ChatState" where
  "handleSend_after outcome s =
     (case outcome of
        Inr responseText \<Rightarrow>
          (let s1 = s\<lparr>messages := messages s @ [\<lparr>role = ascii ''model'', text' = responseText\<rparr>]\<rparr>;
               code = extractHtml responseText;
               s2 = (if code \<noteq> None \<and> code \<noteq> Some [] then s1\<lparr>previewCode := code\<rparr> else s1)
           in s2\<lparr>isLoading := False\<rparr>)
      | Inl e \<Rightarrow>
          s\<lparr>messages := messages s @ [\<lparr>role = ascii ''model'', text' = ERROR_TEXT\<rparr>],
            isLoading := False\<rparr>)"

definition handleSend ::
    "(ChatMessage list \<Rightarrow> jsstring \<Rightarrow> string + jsstring) \<Rightarrow> ChatState \<Rightarrow> ChatState" where
  "handleSend sendChatMessage s =
     (if sendBlocked s then s
      else handleSend_after (sendChatMessage (messages s) (input s)) (handleSend_before s))"

text \<open>
  The text area: \<^verbatim>\<open>onChange={(e) => setInput(e.target.value)}\<close>. A session of the panel is
  a run of rounds, each one typing a text and sending it, with the server's answer of that
  round.
\<close>

definition setInput :: "jsstring \<Rightarrow> ChatState \<Rightarrow> ChatState" where
  "setInput v s = s\<lparr>input := v\<rparr>"

fun session ::
    "((ChatMessage list \<Rightarrow> jsstring \<Rightarrow> string + jsstring) \<times> jsstring) list \<Rightarrow> ChatState \<Rightarrow> ChatState" where
  "session [] s = s"
| "session ((sendChatMessage, v) # rounds) s =
     session rounds (handleSend sendChatMessage (setInput v s))"

text \<open>
  The page that holds the panel (components/AnalysisResult.tsx). It keeps the session data
  it was given, which may be missing (\<^verbatim>\<open>chatData?: ChatSessionData\<close>), and the flag
  \<^verbatim>\<open>isChatOpen\<close>, and renders the panel only while the flag is set and there are session
  data: \<^verbatim>\<open>{isChatOpen && chatData && <ChatInterface chatData={chatData} ... />}\<close>. A
  panel that is rendered anew starts from \<^verbatim>\<open>useState(chatData.history)\<close> and the other
  initial values; a panel that stays rendered keeps its state; a panel that is no longer
  rendered loses it. \<open>panel\<close> is the state of the panel, \<open>None\<close> while it is not
  rendered. The field \<^verbatim>\<open>history\<close> is named \<open>history'\<close>.
\<close>

record ChatSessionData =
  history' :: "ChatMessage list"
  lastContext :: DesignContext
  lastImage :: "jsstring option"

record AnalysisResultView =
  chatData :: "ChatSessionData option"
  isChatOpen :: bool
  panel :: "ChatState option"

definition ChatInterface_initial :: "ChatSessionData \<Rightarrow> ChatState" where
  "ChatInterface_initial d =
     \<lparr>messages = history' d, input = [], isLoading = False, previewCode = None\<rparr>"

definition setIsChatOpen :: "bool \<Rightarrow> AnalysisResultView \<Rightarrow> AnalysisResultView" where
  "setIsChatOpen isOpen v =
     (case (if isOpen then chatData v else None) of
        None \<Rightarrow> v\<lparr>isChatOpen := isOpen, panel := None\<rparr>
      | Some d \<Rightarrow>
          (case panel v of
             None \<Rightarrow> v\<lparr>isChatOpen := isOpen, panel := Some (ChatInterface_initial d)\<rparr>
           | Some s \<Rightarrow> v\<lparr>isChatOpen := isOpen\<rparr>))"

text \<open>An action on the panel that is open; nothing happens while there is none.\<close>

definition inPanel :: "(ChatState \<Rightarrow> ChatState) \<Rightarrow> AnalysisResultView \<Rightarrow> AnalysisResultView" where
  "inPanel act v = v\<lparr>panel := map_option act (panel v)\<rparr>"

section \<open>The theme decision engine (App.tsx, \<^verbatim>\<open>determineTheme\<close>)\<close>


record ThemeEngineDecision =
  theme :: ThemeChoice
  reason :: jsstring


section \<open>Properties\<close>

subsection \<open>Searching, matching and trimming\<close>

lemma indexOf_Some_D:
  "indexOf s p = Some i \<Longrightarrow> i \<le> length s \<and> prefix p (drop i s) \<and> (\<forall>j<i. \<not> prefix p (drop j s))"
proof (induction s arbitrary: i)
  case Nil
  then show ?case by (simp split: if_splits)
next
  case (Cons x xs)
  show ?case
  proof (cases "prefix p (x # xs)")
    case True
    with Cons.prems show ?thesis by simp
  next
    case False
    with Cons.prems obtain i' where i': "indexOf xs p = Some i'" "i = Suc i'"
      by auto
    from Cons.IH [OF i'(1)] have ih: "i' \<le> length xs" "prefix p (drop i' xs)"
      "\<forall>j<i'. \<not> prefix p (drop j xs)" by simp_all
    have "\<not> prefix p (drop j (x # xs))" if "j < i" for j
    proof (cases j)
      case 0
      with False show ?thesis by simp
    next
      case (Suc j')
      with that i'(2) have "j' < i'" by simp
      with ih(3) Suc show ?thesis by simp
    qed
    with ih(1,2) i'(2) show ?thesis by simp
  qed
qed

lemma indexOf_first:
  "i \<le> length s \<Longrightarrow> prefix p (drop i s) \<Longrightarrow> \<forall>j<i. \<not> prefix p (drop j s) \<Longrightarrow> indexOf s p = Some i"
proof (induction s arbitrary: i)
  case Nil
  then show ?case by simp
next
  case (Cons x xs)
  show ?case
  proof (cases i)
    case 0
    with Cons.prems show ?thesis by simp
  next
    case (Suc i')
    from Cons.prems(3) Suc have "\<not> prefix p (drop 0 (x # xs))" by blast
    then have np: "\<not> prefix p (x # xs)" by simp
    have "\<not> prefix p (drop j xs)" if "j < i'" for j
    proof -
      from that Suc have "Suc j < i" by simp
      with Cons.prems(3) have "\<not> prefix p (drop (Suc j) (x # xs))" by blast
      then show ?thesis by simp
    qed
    moreover from Cons.prems(1,2) Suc have "i' \<le> length xs" "prefix p (drop i' xs)" by simp_all
    ultimately have "indexOf xs p = Some i'" by (intro Cons.IH) simp_all
    with np Suc show ?thesis by simp
  qed
qed

lemma indexOf_None_iff: "indexOf s p = None \<longleftrightarrow> \<not> sublist p s"
  by (induction s) (simp_all add: sublist_Cons_right)

lemma indexOf_append_first:
  assumes "\<forall>j<length pre. \<not> prefix p (drop j (pre @ p @ post))"
  shows "indexOf (pre @ p @ post) p = Some (length pre)"
proof (rule indexOf_first)
  show "length pre \<le> length (pre @ p @ post)" by simp
  show "prefix p (drop (length pre) (pre @ p @ post))" by simp
  show "\<forall>j<length pre. \<not> prefix p (drop j (pre @ p @ post))" by (rule assms)
qed

lemma lazyUntil_indexOf:
  "lazyUntil cl s =
     (case indexOf s cl of None \<Rightarrow> None | Some i \<Rightarrow> Some (take i s, drop (i + length cl) s))"
proof (induction s)
  case Nil
  show ?case by simp
next
  case (Cons x xs)
  show ?case
  proof (cases "prefix cl (x # xs)")
    case True
    then show ?thesis by simp
  next
    case False
    then show ?thesis using Cons.IH by (simp split: option.splits)
  qed
qed

lemma lazyUntil_Some_D:
  assumes "lazyUntil cl s = Some (g, r)"
  shows "s = g @ cl @ r \<and> (\<forall>k<length g. \<not> prefix cl (drop k s))"
proof -
  from assms obtain i where i: "indexOf s cl = Some i" "g = take i s" "r = drop (i + length cl) s"
    by (auto simp: lazyUntil_indexOf split: option.splits)
  from indexOf_Some_D [OF i(1)] have le: "i \<le> length s" and pre: "prefix cl (drop i s)"
    and first: "\<forall>j<i. \<not> prefix cl (drop j s)" by simp_all
  from pre obtain z where z: "drop i s = cl @ z" by (auto simp: prefix_def)
  have "r = drop (length cl) (drop i s)" using i(3) by (simp add: add.commute)
  with z have "r = z" by simp
  moreover have "s = take i s @ drop i s" by simp
  ultimately have "s = g @ cl @ r" using z i(2) by simp
  moreover from le i(2) have "length g = i" by simp
  ultimately show ?thesis using first by simp
qed

lemma lazyUntil_first:
  "\<forall>k<length g. \<not> prefix cl (drop k (g @ cl @ r)) \<Longrightarrow> lazyUntil cl (g @ cl @ r) = Some (g, r)"
  by (simp add: lazyUntil_indexOf indexOf_append_first)

lemma lazyUntil_None_iff: "lazyUntil cl s = None \<longleftrightarrow> \<not> sublist cl s"
  by (simp add: lazyUntil_indexOf indexOf_None_iff [symmetric] split: option.splits)

lemma matchLazy_Some_D:
  "matchLazy opn cl s = Some (b, g, a) \<Longrightarrow>
     s = b @ opn @ g @ cl @ a \<and> lazyUntil cl (g @ cl @ a) = Some (g, a)
     \<and> (\<forall>j<length b. matchAt opn cl (drop j s) = None)"
proof (induction s arbitrary: b)
  case Nil
  then have l: "prefix opn []" "lazyUntil cl [] = Some (g, a)" "b = []"
    by (auto simp: matchAt_def split: if_splits)
  from lazyUntil_Some_D [OF l(2)] l show ?case by simp
next
  case (Cons x xs)
  show ?case
  proof (cases "matchAt opn cl (x # xs)")
    case (Some gr)
    with Cons.prems have b: "b = []" and gr: "gr = (g, a)" by (auto split: prod.splits)
    from Some gr have p: "prefix opn (x # xs)" and l: "lazyUntil cl (drop (length opn) (x # xs)) = Some (g, a)"
      by (auto simp: matchAt_def split: if_splits)
    from p obtain z where z: "x # xs = opn @ z" by (auto simp: prefix_def)
    from l have l': "lazyUntil cl z = Some (g, a)" by (simp only: z append_eq_conv_conj drop_all append_Nil drop_append length_append diff_self_eq_0 drop_0 order_refl)
    from lazyUntil_Some_D [OF l'] have "z = g @ cl @ a" by simp
    with z l' b show ?thesis by simp
  next
    case None
    with Cons.prems obtain b' where b': "matchLazy opn cl xs = Some (b', g, a)" "b = x # b'"
      by auto
    note ih0 = Cons.IH [OF b'(1)]
    note ih = ih0 [THEN conjunct1] ih0 [THEN conjunct2, THEN conjunct1]
      ih0 [THEN conjunct2, THEN conjunct2]
    have "matchAt opn cl (drop j (x # xs)) = None" if "j < length b" for j
    proof (cases j)
      case 0
      with None show ?thesis by simp
    next
      case (Suc j')
      with that b'(2) have "j' < length b'" by simp
      with ih(3) Suc show ?thesis by simp
    qed
    with ih(1,2) b'(2) show ?thesis by simp
  qed
qed

lemma matchAt_append: "matchAt opn cl (opn @ rest) = lazyUntil cl rest"
  by (simp add: matchAt_def)

lemma matchLazy_first:
  "\<forall>j<length b. \<not> prefix opn (drop j (b @ opn @ rest)) \<Longrightarrow> lazyUntil cl rest = Some (g, a) \<Longrightarrow>
     matchLazy opn cl (b @ opn @ rest) = Some (b, g, a)"
proof (induction b)
  case Nil
  have m: "matchAt opn cl (opn @ rest) = Some (g, a)" using Nil.prems(2) by (simp add: matchAt_append)
  show ?case
  proof (cases "opn @ rest")
    case Nil
    with m show ?thesis by simp
  next
    case (Cons y ys)
    with m show ?thesis by simp
  qed
next
  case (Cons x b)
  from Cons.prems(1) have "\<not> prefix opn (drop 0 ((x # b) @ opn @ rest))" by (metis length_Cons zero_less_Suc)
  then have "matchAt opn cl (x # b @ opn @ rest) = None" by (simp add: matchAt_def)
  moreover have "\<forall>j<length b. \<not> prefix opn (drop j (b @ opn @ rest))"
  proof (intro allI impI)
    fix j assume "j < length b"
    then have "Suc j < length (x # b)" by simp
    with Cons.prems(1) have "\<not> prefix opn (drop (Suc j) ((x # b) @ opn @ rest))" by blast
    then show "\<not> prefix opn (drop j (b @ opn @ rest))" by simp
  qed
  ultimately show ?case using Cons.IH Cons.prems(2) by simp
qed

lemma sublist_trim: "sublist (trim s) s"
proof -
  have "sublist (dropWhile isWhiteSpace (rev (dropWhile isWhiteSpace s))) (rev (dropWhile isWhiteSpace s))"
    by (rule sublist_dropWhile)
  then have "sublist (trim s) (dropWhile isWhiteSpace s)"
    unfolding trim_def by (simp add: sublist_rev_left)
  also have "sublist (dropWhile isWhiteSpace s) s" by (rule sublist_dropWhile)
  finally show ?thesis .
qed

subsection \<open>The response splitter\<close>

lemma length_SEPARATOR: "length SEPARATOR = 15"
  by (simp add: SEPARATOR_def ascii_def)

lemma matchLazy_replaceFirst:
  assumes "matchLazy opn cl s = Some (b, g, a)"
  shows "replaceFirst (opn @ g @ cl) s = b @ a"
proof -
  note m = matchLazy_Some_D [OF assms]
  note s = m [THEN conjunct1]
  note none = m [THEN conjunct2, THEN conjunct2]
  have first: "\<not> prefix (opn @ g @ cl) (drop j s)" if j: "j < length b" for j
  proof
    assume p: "prefix (opn @ g @ cl) (drop j s)"
    then obtain z where z: "drop j s = opn @ g @ cl @ z" by (auto simp: prefix_def)
    then have "prefix opn (drop j s)" by simp
    moreover from none j have "matchAt opn cl (drop j s) = None" by blast
    ultimately have "lazyUntil cl (drop (length opn) (drop j s)) = None"
      by (simp add: matchAt_def)
    then have "\<not> sublist cl (drop (length opn) (drop j s))"
      by (simp add: lazyUntil_None_iff)
    moreover have "drop (length opn) (drop j s) = g @ cl @ z" by (simp add: z)
    ultimately show False by simp
  qed
  have "indexOf s (opn @ g @ cl) = Some (length b)"
  proof (rule indexOf_first)
    show "length b \<le> length s" by (subst s) simp
    show "prefix (opn @ g @ cl) (drop (length b) s)" by (subst s) simp
    show "\<forall>j<length b. \<not> prefix (opn @ g @ cl) (drop j s)" using first by blast
  qed
  moreover have "take (length b) s = b" by (subst s) simp
  moreover have "drop (length b + length (opn @ g @ cl)) s = a"
    by (subst s) simp
  ultimately show ?thesis by (simp add: replaceFirst_def)
qed

lemma parseResponse_at_separator:
  assumes "\<forall>j<length pre. \<not> prefix SEPARATOR (drop j (pre @ SEPARATOR @ post))"
  shows "parseResponse (pre @ SEPARATOR @ post) =
           \<lparr>markdownText = trim post,
            scores = (case JSON_parse (cleanJson (trim pre)) of Some v \<Rightarrow> v | None \<Rightarrow> JNull)\<rparr>"
proof -
  have i: "indexOf (pre @ SEPARATOR @ post) SEPARATOR = Some (length pre)"
    using assms by (rule indexOf_append_first)
  have d: "drop (length pre + 15) (pre @ SEPARATOR @ post) = post"
    by (simp add: length_SEPARATOR)
  show ?thesis
    unfolding parseResponse_def i
    by (simp only: option.case Let_def d take_append take_all order_refl diff_self_eq_0 take_0 append_Nil2)
      (simp split: option.splits)
qed

lemma parseResponse_no_separator:
  assumes "indexOf fullText SEPARATOR = None"
  shows "parseResponse fullText =
     (case matchLazy [0x7B] [0x7D] fullText of
        Some (b, g, a) \<Rightarrow>
          (case JSON_parse ([0x7B] @ g @ [0x7D]) of
             Some v \<Rightarrow> \<lparr>markdownText = trim (b @ a), scores = v\<rparr>
           | None \<Rightarrow> \<lparr>markdownText = fullText, scores = JNull\<rparr>)
      | None \<Rightarrow> \<lparr>markdownText = fullText, scores = JNull\<rparr>)"
  unfolding parseResponse_def assms
  by (auto simp: Let_def dest: matchLazy_replaceFirst split: option.splits)


lemma absent_no_prefix:
  assumes "x \<notin> set pre" "j < length pre"
  shows "\<not> prefix (x # p) (drop j (pre @ rest))"
proof
  assume a: "prefix (x # p) (drop j (pre @ rest))"
  from assms(2) have "drop j (pre @ rest) = pre ! j # drop (Suc j) pre @ rest"
    by (simp add: Cons_nth_drop_Suc)
  with a have "x = pre ! j" by simp
  with assms show False by simp
qed

lemma sublist_trim_D: "sublist x (trim s) \<Longrightarrow> sublist x s"
  using sublist_trim sublist_order.order_trans by blast

lemmas json_eval = JSON_parse_def isJsonWhiteSpace_def isDigit_def consChar_def
  lexNumber_def optionalSign_def lexInt_def lexFrac_def lexExp_def startValue_def parseStep_def

lemmas split_eval = parseResponse_def SEPARATOR_def cleanJson_def FENCE_def FENCE_JSON_def
  trim_def isWhiteSpace_def matchAt_def replaceFirst_def ascii_def LF_def

lemma replaceGlobal_append_absent:
  "x \<notin> set s \<Longrightarrow> replaceGlobal (x # p) (s @ t) = s @ replaceGlobal (x # p) t"
  by (induction s) simp_all

lemma replaceGlobal_self: "p \<noteq> [] \<Longrightarrow> replaceGlobal p (p @ t) = replaceGlobal p t"
  by (cases p) simp_all

lemma cleanJson_fenced:
  assumes "0x60 \<notin> set body"
  shows "cleanJson (FENCE_JSON @ body @ FENCE) = trim body"
proof -
  have fj: "FENCE_JSON = 0x60 # [0x60, 0x60, 0x6A, 0x73, 0x6F, 0x6E]"
    and f: "FENCE = 0x60 # [0x60, 0x60]"
    by (simp_all add: FENCE_JSON_def FENCE_def ascii_def)
  have a: "replaceGlobal FENCE_JSON (body @ FENCE) = body @ FENCE"
    unfolding fj using assms by (simp add: replaceGlobal_append_absent) (simp add: f)
  have b: "replaceGlobal FENCE (body @ FENCE) = body"
    unfolding f using assms by (simp add: replaceGlobal_append_absent)
  have "replaceGlobal FENCE_JSON (FENCE_JSON @ body @ FENCE) = body @ FENCE"
    using a by (simp add: replaceGlobal_self fj)
  then show ?thesis
    by (simp add: cleanJson_def b)
qed

lemma replaceGlobal_none: "\<not> sublist p s \<Longrightarrow> replaceGlobal p s = s"
proof (induction s)
  case Nil
  show ?case by simp
next
  case (Cons x xs)
  from Cons.prems have "\<not> prefix p (x # xs)" and "\<not> sublist p xs"
    by (simp_all add: sublist_Cons_right)
  with Cons.IH show ?case by simp
qed

lemma replaceGlobal_first:
  assumes "p \<noteq> []"
  shows "\<forall>j<length u. \<not> prefix p (drop j (u @ p @ rest)) \<Longrightarrow>
           replaceGlobal p (u @ p @ rest) = u @ replaceGlobal p rest"
proof (induction u)
  case Nil
  from assms obtain y ys where p: "p = y # ys" by (cases p) simp_all
  show ?case by (simp add: p)
next
  case (Cons x u)
  from Cons.prems have "\<not> prefix p (drop 0 ((x # u) @ p @ rest))"
    by (metis length_Cons zero_less_Suc)
  then have np: "\<not> prefix p (x # u @ p @ rest)" by simp
  have "\<forall>j<length u. \<not> prefix p (drop j (u @ p @ rest))"
  proof (intro allI impI)
    fix j assume "j < length u"
    then have "Suc j < length (x # u)" by simp
    with Cons.prems have "\<not> prefix p (drop (Suc j) ((x # u) @ p @ rest))" by blast
    then show "\<not> prefix p (drop j (u @ p @ rest))" by simp
  qed
  then have "replaceGlobal p (u @ p @ rest) = u @ replaceGlobal p rest" by (rule Cons.IH)
  with np show ?case by simp
qed

lemma stripsTo_unique:
  assumes "stripsTo p s r" and "p \<noteq> []"
  shows "r = replaceGlobal p s"
  using assms(1)
proof (induction rule: stripsTo.induct)
  case (none s)
  then show ?case by (simp add: replaceGlobal_none)
next
  case (step u rest r)
  then show ?case by (simp add: replaceGlobal_first [OF assms(2)])
qed

lemma stripsTo_replaceGlobal:
  assumes "p \<noteq> []"
  shows "stripsTo p s (replaceGlobal p s)"
proof (induction s rule: length_induct)
  case (1 s)
  show ?case
  proof (cases "indexOf s p")
    case None
    then have n: "\<not> sublist p s" by (simp add: indexOf_None_iff)
    then show ?thesis by (simp add: replaceGlobal_none stripsTo.none)
  next
    case (Some i)
    note d = indexOf_Some_D [OF Some]
    from d obtain rest where rest: "drop i s = p @ rest" by (auto simp: prefix_def)
    define u where "u = take i s"
    have s: "s = u @ p @ rest" unfolding u_def rest [symmetric] by simp
    have lu: "length u = i" using d by (simp add: u_def)
    have first: "\<forall>j<length u. \<not> prefix p (drop j (u @ p @ rest))"
      using d lu s by simp
    have "length rest < length s" using assms by (subst s) simp
    with 1 have "stripsTo p rest (replaceGlobal p rest)" by blast
    with first have "stripsTo p (u @ p @ rest) (u @ replaceGlobal p rest)"
      by (rule stripsTo.step)
    then show ?thesis
      by (simp only: s [symmetric] replaceGlobal_first [OF assms first, symmetric])
  qed
qed

lemma FENCE_nonempty: "FENCE_JSON \<noteq> []" "FENCE \<noteq> []"
  by (simp_all add: FENCE_JSON_def FENCE_def ascii_def)

lemma cleanJson_stripsTo:
  "\<exists>r1 r2. stripsTo FENCE_JSON s r1 \<and> stripsTo FENCE r1 r2 \<and> cleanJson s = trim r2"
  apply (rule exI [of _ "replaceGlobal FENCE_JSON s"])
  apply (rule exI [of _ "replaceGlobal FENCE (replaceGlobal FENCE_JSON s)"])
  apply (simp add: stripsTo_replaceGlobal FENCE_nonempty cleanJson_def)
  done

lemma stripsTo_cleanJson:
  assumes "stripsTo FENCE_JSON s r1" "stripsTo FENCE r1 r2"
  shows "cleanJson s = trim r2"
  using stripsTo_unique [OF assms(1) FENCE_nonempty(1)] stripsTo_unique [OF assms(2) FENCE_nonempty(2)]
  by (simp add: cleanJson_def)

text \<open>
  Claim C3, as the code has it. When the text holds the separator token, the body is the
  text behind its first occurrence, trimmed. The score is what \<^verbatim>\<open>JSON.parse\<close> gives for
  the text before it after that text is trimmed, every occurrence of the marker
  \<^verbatim>\<open>```json\<close> is cut out of it, then every occurrence of \<^verbatim>\<open>```\<close>, and the result is
  trimmed again; it is \<open>JNull\<close>, the value \<^verbatim>\<open>null\<close>, when that text does not parse. The
  markers go wherever they stand in the block, not only around it. The hypothesis says
  that the occurrence of the separator is the first one: the token starts at no earlier
  index. \<open>stripsTo\<close> has one result for each text (\<open>stripsTo_unique\<close>).
\<close>

theorem parseResponse_separator:
  assumes "\<forall>j<length pre. \<not> prefix SEPARATOR (drop j (pre @ SEPARATOR @ post))"
  shows "markdownText (parseResponse (pre @ SEPARATOR @ post)) = trim post
       \<and> (\<exists>r1 r2. stripsTo FENCE_JSON (trim pre) r1 \<and> stripsTo FENCE r1 r2
             \<and> scores (parseResponse (pre @ SEPARATOR @ post)) =
                 (case JSON_parse (trim r2) of Some v \<Rightarrow> v | None \<Rightarrow> JNull))"
proof -
  note r = parseResponse_at_separator [OF assms]
  obtain r1 r2 where s: "stripsTo FENCE_JSON (trim pre) r1" "stripsTo FENCE r1 r2"
    and c: "cleanJson (trim pre) = trim r2"
    using cleanJson_stripsTo [of "trim pre"] by (elim exE conjE)
  have m: "markdownText (parseResponse (pre @ SEPARATOR @ post)) = trim post"
    by (simp add: r)
  have sc: "scores (parseResponse (pre @ SEPARATOR @ post)) =
                 (case JSON_parse (trim r2) of Some v \<Rightarrow> v | None \<Rightarrow> JNull)"
    by (simp add: r c)
  show ?thesis
    apply (rule conjI [OF m])
    apply (rule exI [of _ r1])
    apply (rule exI [of _ r2])
    apply (rule conjI [OF s(1) conjI [OF s(2) sc]])
    done
qed

text \<open>
  An instance: a score block wrapped in \<^verbatim>\<open>```json\<close> and \<^verbatim>\<open>```\<close>, with no hyphen before
  the separator, so that the separator is the first one. The score is that of the block
  alone.
\<close>

theorem parseResponse_separator_witness:
  \<open>0x2D \<notin> set (FENCE_JSON @ LF @ ascii ''{"overallScore": 59}'' @ LF @ FENCE @ LF)
   \<and> markdownText (parseResponse ((FENCE_JSON @ LF @ ascii ''{"overallScore": 59}'' @ LF @ FENCE @ LF)
                                     @ SEPARATOR @ ascii ''# Summary'' @ LF @ ascii ''Body''))
       = ascii ''# Summary'' @ LF @ ascii ''Body''
   \<and> scores (parseResponse ((FENCE_JSON @ LF @ ascii ''{"overallScore": 59}'' @ LF @ FENCE @ LF)
                               @ SEPARATOR @ ascii ''# Summary'' @ LF @ ascii ''Body''))
       = JObject [(ascii ''overallScore'', JNumber (ascii ''59''))]\<close>
proof -
  let ?pre = \<open>FENCE_JSON @ LF @ ascii ''{"overallScore": 59}'' @ LF @ FENCE @ LF\<close>
  let ?post = "ascii ''# Summary'' @ LF @ ascii ''Body''"
  have n: "0x2D \<notin> set ?pre"
    by (simp add: FENCE_JSON_def FENCE_def ascii_def LF_def)
  have h: "\<forall>j<length ?pre. \<not> prefix SEPARATOR (drop j (?pre @ SEPARATOR @ ?post))"
    unfolding SEPARATOR_def ascii_def [of "''---SEPARATOR---''"]
    using absent_no_prefix [OF n] by simp
  note t = parseResponse_separator [OF h]
  obtain r1 r2 where s1: "stripsTo FENCE_JSON (trim ?pre) r1" and s2: "stripsTo FENCE r1 r2"
    and sc: "scores (parseResponse (?pre @ SEPARATOR @ ?post)) =
                 (case JSON_parse (trim r2) of Some v \<Rightarrow> v | None \<Rightarrow> JNull)"
    using t [THEN conjunct2] by (elim exE conjE)
  have c: "trim r2 = cleanJson (trim ?pre)"
    using stripsTo_cleanJson [OF s1 s2] by simp
  have p: \<open>JSON_parse (cleanJson (trim ?pre))
             = Some (JObject [(ascii ''overallScore'', JNumber (ascii ''59''))])\<close>
    by (simp add: cleanJson_def FENCE_def FENCE_JSON_def trim_def isWhiteSpace_def ascii_def LF_def json_eval)
  have tp: "trim ?post = ?post"
    by (simp add: trim_def isWhiteSpace_def ascii_def LF_def)
  from t [THEN conjunct1] n sc show ?thesis
    by (simp only: c p tp option.case simp_thms)
qed

text \<open>
  Claim C3 as stated strips the markers around the block only. Here the block has no
  marker around it and one inside a string; the code cuts that one out, and the score is
  not what the block parses to.
\<close>

theorem parseResponse_strips_inner_marker:
  \<open>scores (parseResponse (ascii ''{"tip":"wrap it in ```json"}---SEPARATOR---Body'')) =
     JObject [(ascii ''tip'', JString (ascii ''wrap it in ''))]
   \<and> JSON_parse (ascii ''{"tip":"wrap it in ```json"}'') =
     Some (JObject [(ascii ''tip'', JString (ascii ''wrap it in ```json''))])
   \<and> \<not> prefix FENCE (ascii ''{"tip":"wrap it in ```json"}'')
   \<and> \<not> suffix FENCE (ascii ''{"tip":"wrap it in ```json"}'')\<close>
  by (simp add: split_eval json_eval suffix_to_prefix)


text \<open>
  Claim C1, at an input on which the code leaves it. The score block before the separator
  has a trailing comma and does not parse. The function returns no score, and as body the
  text behind the separator, not the whole input: \<^verbatim>\<open>markdownText\<close> was assigned before
  \<^verbatim>\<open>JSON.parse\<close> threw.
\<close>

theorem parseResponse_separator_parse_failure:
  \<open>JSON_parse (cleanJson (trim (ascii ''{"overallScore": 59,}''))) = None
   \<and> parseResponse (ascii ''{"overallScore": 59,}---SEPARATOR---# Summary'') =
       \<lparr>markdownText = ascii ''# Summary'', scores = JNull\<rparr>\<close>
  by (simp add: split_eval json_eval)

lemma parseResponse_fallback_flat:
  \<open>parseResponse (ascii ''{"overallScore": 59, "confidence": "High"} # Summary'') =
       \<lparr>markdownText = ascii ''# Summary'',
        scores = JObject [(ascii ''overallScore'', JNumber (ascii ''59'')),
                          (ascii ''confidence'', JString (ascii ''High''))]\<rparr>\<close>
  by (simp add: split_eval json_eval)

text \<open>
  Claim C2, at an input on which the code leaves it. The text has no separator and holds
  one JSON object, with a nested object as the documented score report has. The lazy
  pattern stops at the first closing brace, the part matched does not parse, and the
  function returns no score and the whole input as body. An object without inner braces
  is extracted (\<open>parseResponse_fallback_flat\<close>).
\<close>

theorem parseResponse_fallback_nested:
  \<open>JSON_parse (ascii ''{"overallScore": 59, "metrics": {"usability": 6}}'') =
     Some (JObject [(ascii ''overallScore'', JNumber (ascii ''59'')),
                    (ascii ''metrics'', JObject [(ascii ''usability'', JNumber (ascii ''6''))])])
   \<and> parseResponse (ascii ''{"overallScore": 59, "metrics": {"usability": 6}} # Summary'') =
       \<lparr>markdownText = ascii ''{"overallScore": 59, "metrics": {"usability": 6}} # Summary'',
        scores = JNull\<rparr>\<close>
  by (simp add: split_eval json_eval)

lemma matchLazy_first_opener:
  assumes "matchLazy opn cl s = Some (b, g, a)" and j: "j < length b"
  shows "\<not> prefix opn (drop j s)"
proof
  assume p: "prefix opn (drop j s)"
  note m = matchLazy_Some_D [OF assms(1)]
  note s = m [THEN conjunct1]
  from m [THEN conjunct2, THEN conjunct2] j have "matchAt opn cl (drop j s) = None" by simp
  with p have "lazyUntil cl (drop (length opn) (drop j s)) = None"
    by (simp add: matchAt_def)
  then have n: "\<not> sublist cl (drop (length opn + j) s)"
    by (simp add: lazyUntil_None_iff)
  have "drop (length opn + j) s = drop (length opn + j) (b @ opn @ g) @ cl @ a"
    using j by (subst s) simp
  then have "sublist cl (drop (length opn + j) s)" by (simp only: sublist_appendI)
  with n show False by contradiction
qed

lemma notin_if_starts_nowhere:
  assumes "\<forall>j<length b. \<not> prefix [x] (drop j (b @ rest))"
  shows "x \<notin> set b"
proof
  assume "x \<in> set b"
  then obtain j where j: "j < length b" "b ! j = x" by (auto simp: in_set_conv_nth)
  have "drop j b = x # drop (Suc j) b"
    using Cons_nth_drop_Suc [OF j(1)] j(2) by simp
  with j(1) have "drop j (b @ rest) = x # drop (Suc j) b @ rest"
    by simp
  then have "prefix [x] (drop j (b @ rest))" by simp
  with assms j(1) show False by blast
qed

lemma matchLazy_braces:
  assumes "matchLazy [x] [y] s = Some (b, g, a)"
  shows "s = b @ [x] @ g @ [y] @ a" and "x \<notin> set b" and "y \<notin> set g"
proof -
  note m = matchLazy_Some_D [OF assms]
  show s: "s = b @ [x] @ g @ [y] @ a" by (rule m [THEN conjunct1])
  have "\<forall>j<length b. \<not> prefix [x] (drop j (b @ [x] @ g @ [y] @ a))"
    using matchLazy_first_opener [OF assms] s by simp
  then show "x \<notin> set b" by (rule notin_if_starts_nowhere)
  from lazyUntil_Some_D [OF m [THEN conjunct2, THEN conjunct1]]
  have "\<forall>k<length g. \<not> prefix [y] (drop k (g @ [y] @ a))" by simp
  then show "y \<notin> set g" by (rule notin_if_starts_nowhere)
qed

text \<open>
  Claim C4, as the code has it. When a score is extracted, the body is what is left of the
  input outside the score block, trimmed. Either the input holds the separator: then the
  score is parsed from the cleaned text before the first separator and the body is the
  text behind that first separator. Or it holds none: then the block runs from the first
  opening brace of the input to the first closing brace behind it, the score is parsed
  from that block, and the body is the input with the block cut out at that place.
\<close>

theorem parseResponse_body_is_remainder:
  assumes "scores (parseResponse fullText) \<noteq> JNull"
  shows "(\<exists>pre post. fullText = pre @ SEPARATOR @ post
            \<and> (\<forall>j<length pre. \<not> prefix SEPARATOR (drop j fullText))
            \<and> (\<exists>r1 r2. stripsTo FENCE_JSON (trim pre) r1 \<and> stripsTo FENCE r1 r2
                  \<and> JSON_parse (trim r2) = Some (scores (parseResponse fullText)))
            \<and> markdownText (parseResponse fullText) = trim post)
       \<or> (\<not> sublist SEPARATOR fullText
           \<and> (\<exists>pre g post. fullText = pre @ [0x7B] @ g @ [0x7D] @ post
                 \<and> 0x7B \<notin> set pre \<and> 0x7D \<notin> set g
                 \<and> JSON_parse ([0x7B] @ g @ [0x7D]) = Some (scores (parseResponse fullText))
                 \<and> markdownText (parseResponse fullText) = trim (pre @ post)))"
proof (cases "indexOf fullText SEPARATOR")
  case (Some i)
  note d = indexOf_Some_D [OF Some]
  from d obtain post where post: "drop i fullText = SEPARATOR @ post"
    by (auto simp: prefix_def)
  define pre where "pre = take i fullText"
  have ft: "fullText = pre @ SEPARATOR @ post"
    unfolding pre_def post [symmetric] by simp
  have len: "length pre = i" using d by (simp add: pre_def)
  have first0: "\<forall>j<length pre. \<not> prefix SEPARATOR (drop j fullText)"
    using d len by simp
  have first: "\<forall>j<length pre. \<not> prefix SEPARATOR (drop j (pre @ SEPARATOR @ post))"
    using first0 unfolding ft [symmetric] .
  note r = parseResponse_at_separator [OF first]
  have "scores (parseResponse (pre @ SEPARATOR @ post)) \<noteq> JNull"
    unfolding ft [symmetric] by (rule assms)
  with r obtain v where v: "JSON_parse (cleanJson (trim pre)) = Some v"
    by (cases "JSON_parse (cleanJson (trim pre))") simp_all
  from r v have res: "parseResponse fullText = \<lparr>markdownText = trim post, scores = v\<rparr>"
    by (simp add: ft)
  obtain r1 r2 where s: "stripsTo FENCE_JSON (trim pre) r1" "stripsTo FENCE r1 r2"
    and c: "cleanJson (trim pre) = trim r2"
    using cleanJson_stripsTo [of "trim pre"] by (elim exE conjE)
  have c2: "JSON_parse (trim r2) = Some (scores (parseResponse fullText))"
    using v by (simp add: res c)
  have c2': "\<exists>r1 r2. stripsTo FENCE_JSON (trim pre) r1 \<and> stripsTo FENCE r1 r2
                  \<and> JSON_parse (trim r2) = Some (scores (parseResponse fullText))"
    apply (rule exI [of _ r1])
    apply (rule exI [of _ r2])
    apply (rule conjI [OF s(1) conjI [OF s(2) c2]])
    done
  have c3: "markdownText (parseResponse fullText) = trim post"
    by (simp add: res)
  note conj = conjI [OF ft conjI [OF first0 conjI [OF c2' c3]]]
  show ?thesis
    apply (rule disjI1)
    apply (rule exI [of _ pre])
    apply (rule exI [of _ post])
    apply (rule conj)
    done
next
  case None
  then have nosep: "\<not> sublist SEPARATOR fullText" by (simp add: indexOf_None_iff)
  note r = parseResponse_no_separator [OF None]
  show ?thesis
  proof (cases "matchLazy [0x7B] [0x7D] fullText")
    case None
    with r assms show ?thesis by simp
  next
    case (Some m)
    obtain b g a where m: "m = (b, g, a)" by (cases m)
    note ml = Some [unfolded m]
    note br = matchLazy_braces [OF ml]
    show ?thesis
    proof (cases "JSON_parse ([0x7B] @ g @ [0x7D])")
      case None
      with r ml assms show ?thesis by simp
    next
      case (Some v)
      with r ml have res: "parseResponse fullText = \<lparr>markdownText = trim (b @ a), scores = v\<rparr>"
        by simp
      have c2: "JSON_parse ([0x7B] @ g @ [0x7D]) = Some (scores (parseResponse fullText))"
        using Some by (simp add: res)
      have c3: "markdownText (parseResponse fullText) = trim (b @ a)"
        by (simp add: res)
      note conj = conjI [OF br(1) conjI [OF br(2) conjI [OF br(3) conjI [OF c2 c3]]]]
      show ?thesis
        apply (rule disjI2)
        apply (rule conjI [OF nosep])
        apply (rule exI [of _ b])
        apply (rule exI [of _ g])
        apply (rule exI [of _ a])
        apply (rule conj)
        done
    qed
  qed
qed

text \<open>Two instances, one for each branch.\<close>

theorem parseResponse_body_is_remainder_witness:
  \<open>let withSeparator = ascii ''{"overallScore": 59}---SEPARATOR---# Summary'';
       withoutSeparator = ascii ''Intro {"overallScore": 59} # Summary'' in
   scores (parseResponse withSeparator) \<noteq> JNull
   \<and> (\<exists>pre post. withSeparator = pre @ SEPARATOR @ post
         \<and> markdownText (parseResponse withSeparator) = trim post)
   \<and> scores (parseResponse withoutSeparator) \<noteq> JNull
   \<and> (\<exists>pre g post. withoutSeparator = pre @ [0x7B] @ g @ [0x7D] @ post
         \<and> 0x7B \<notin> set pre \<and> 0x7D \<notin> set g
         \<and> markdownText (parseResponse withoutSeparator) = trim (pre @ post))\<close>
proof -
  define X1 where \<open>X1 = ascii ''{"overallScore": 59}---SEPARATOR---# Summary''\<close>
  define X2 where \<open>X2 = ascii ''Intro {"overallScore": 59} # Summary''\<close>
  have h1: "scores (parseResponse X1) \<noteq> JNull"
    unfolding X1_def by (simp add: split_eval json_eval)
  have h2: "scores (parseResponse X2) \<noteq> JNull"
    unfolding X2_def by (simp add: split_eval json_eval)
  have "indexOf X1 SEPARATOR \<noteq> None"
    unfolding X1_def by (simp add: SEPARATOR_def ascii_def)
  then have s1: "sublist SEPARATOR X1" by (simp add: indexOf_None_iff)
  have "indexOf X2 SEPARATOR = None"
    unfolding X2_def by (simp add: SEPARATOR_def ascii_def)
  then have n2: "\<not> sublist SEPARATOR X2" by (simp add: indexOf_None_iff)
  have e1: "\<exists>pre post. X1 = pre @ SEPARATOR @ post
         \<and> markdownText (parseResponse X1) = trim post"
    using parseResponse_body_is_remainder [OF h1]
  proof (elim disjE exE conjE)
    fix pre post
    assume a: "X1 = pre @ SEPARATOR @ post" and m: "markdownText (parseResponse X1) = trim post"
    show ?thesis
      apply (rule exI [of _ pre])
      apply (rule exI [of _ post])
      apply (rule conjI [OF a m])
      done
  next
    assume "\<not> sublist SEPARATOR X1"
    with s1 show ?thesis by contradiction
  qed
  have e2: "\<exists>pre g post. X2 = pre @ [0x7B] @ g @ [0x7D] @ post
         \<and> 0x7B \<notin> set pre \<and> 0x7D \<notin> set g
         \<and> markdownText (parseResponse X2) = trim (pre @ post)"
    using parseResponse_body_is_remainder [OF h2]
  proof (elim disjE exE conjE)
    fix pre post
    assume a: "X2 = pre @ SEPARATOR @ post"
    have "sublist SEPARATOR X2" by (subst a) (rule sublist_appendI)
    with n2 show ?thesis by contradiction
  next
    fix pre g post
    assume a: "X2 = pre @ [0x7B] @ g @ [0x7D] @ post" and b: "0x7B \<notin> set pre"
      and c: "0x7D \<notin> set g" and m: "markdownText (parseResponse X2) = trim (pre @ post)"
    show ?thesis
      apply (rule exI [of _ pre])
      apply (rule exI [of _ g])
      apply (rule exI [of _ post])
      apply (rule conjI [OF a conjI [OF b conjI [OF c m]]])
      done
  qed
  show ?thesis
    unfolding Let_def X1_def [symmetric] X2_def [symmetric]
    by (rule conjI [OF h1 conjI [OF e1 conjI [OF h2 e2]]])
qed


text \<open>
  Claim C4 as stated fails where the critique repeats the block: the score is extracted
  and the body still contains the raw score block.
\<close>

theorem parseResponse_body_repeats_block:
  \<open>scores (parseResponse
       (ascii ''{"overallScore": 59}---SEPARATOR---Raw data: {"overallScore": 59}'')) =
     JObject [(ascii ''overallScore'', JNumber (ascii ''59''))]
   \<and> sublist (ascii ''{"overallScore": 59}'')
        (markdownText (parseResponse
           (ascii ''{"overallScore": 59}---SEPARATOR---Raw data: {"overallScore": 59}'')))\<close>
proof -
  have e: \<open>parseResponse
       (ascii ''{"overallScore": 59}---SEPARATOR---Raw data: {"overallScore": 59}'') =
     \<lparr>markdownText = ascii ''Raw data: '' @ ascii ''{"overallScore": 59}'',
      scores = JObject [(ascii ''overallScore'', JNumber (ascii ''59''))]\<rparr>\<close>
    by (simp add: split_eval json_eval)
  show ?thesis
    unfolding e by simp
qed

subsection \<open>The prompt assembler\<close>

lemma trim_Nil: "trim [] = []"
  by (simp add: trim_def)

lemma sublist_single: "sublist [x] ys \<longleftrightarrow> x \<in> set ys"
  by (induction ys) (auto simp: sublist_Cons_right)

lemma api_analyze_promptText_parts:
  "api_analyze_promptText c themeMode =
     api_analyze_header themeMode @ figmaLine c
       @ (if userContext c \<noteq> [] then contextLine c else [])"
  by (simp add: api_analyze_promptText_def Let_def)

lemma analyzeDesign_promptText_parts:
  "analyzeDesign_promptText c mode =
     analyzeDesign_header mode @ figmaLine c
       @ (if trim (userContext c) \<noteq> [] then contextLine c else INFER_NOTE)"
  by (auto simp: analyzeDesign_promptText_def Let_def trim_Nil)

lemma sublist_contextLine: "sublist (userContext c) (a @ b @ contextLine c)"
proof -
  have "a @ b @ contextLine c =
          (a @ b @ ascii ''**Context, Goals & Constraints:**'' @ LF) @ userContext c @ LF"
    by (simp add: contextLine_def)
  then show ?thesis by (simp only: sublist_appendI)
qed

lemma figmaLine_simps:
  "figmaLine (c\<lparr>figmaUrl := None\<rparr>) = []"
  "figmaLine (c\<lparr>figmaUrl := Some []\<rparr>) = []"
  "url \<noteq> [] \<Longrightarrow> figmaLine (c\<lparr>figmaUrl := Some url\<rparr>) = ascii ''**Figma URL provided:** '' @ url @ LF"
  by (simp_all add: figmaLine_def)

text \<open>
  Claim C5, as the code has it. Each prompt is three parts in this order: the header, which
  depends on the theme only; the line of the URL, present exactly when a URL that is not
  empty is given; the part of the context. On the server the last part is the context line
  when the context is not empty, and nothing otherwise. On the client it is the context
  line when the context has a code unit that is not white space, and otherwise, for an
  empty or blank context, the note that tells the model to infer the context. So a context
  that is embedded stands in the prompt as it is, and the note, when present, ends the
  prompt.
\<close>

theorem promptText_context_and_url:
  "api_analyze_promptText c themeMode =
      api_analyze_header themeMode
        @ (case figmaUrl c of
             None \<Rightarrow> []
           | Some url \<Rightarrow> if url = [] then [] else ascii ''**Figma URL provided:** '' @ url @ LF)
        @ (if userContext c \<noteq> []
           then ascii ''**Context, Goals & Constraints:**'' @ LF @ userContext c @ LF else [])
   \<and> analyzeDesign_promptText c mode =
      analyzeDesign_header mode
        @ (case figmaUrl c of
             None \<Rightarrow> []
           | Some url \<Rightarrow> if url = [] then [] else ascii ''**Figma URL provided:** '' @ url @ LF)
        @ (if trim (userContext c) \<noteq> []
           then ascii ''**Context, Goals & Constraints:**'' @ LF @ userContext c @ LF
           else INFER_NOTE)
   \<and> (userContext c \<noteq> [] \<longrightarrow> sublist (userContext c) (api_analyze_promptText c themeMode))
   \<and> (trim (userContext c) \<noteq> [] \<longrightarrow> sublist (userContext c) (analyzeDesign_promptText c mode))
   \<and> (trim (userContext c) = [] \<longrightarrow> suffix INFER_NOTE (analyzeDesign_promptText c mode))"
proof -
  have p1: "api_analyze_promptText c themeMode =
      api_analyze_header themeMode
        @ (case figmaUrl c of
             None \<Rightarrow> []
           | Some url \<Rightarrow> if url = [] then [] else ascii ''**Figma URL provided:** '' @ url @ LF)
        @ (if userContext c \<noteq> []
           then ascii ''**Context, Goals & Constraints:**'' @ LF @ userContext c @ LF else [])"
    by (simp add: api_analyze_promptText_parts figmaLine_def contextLine_def)
  have p2: "analyzeDesign_promptText c mode =
      analyzeDesign_header mode
        @ (case figmaUrl c of
             None \<Rightarrow> []
           | Some url \<Rightarrow> if url = [] then [] else ascii ''**Figma URL provided:** '' @ url @ LF)
        @ (if trim (userContext c) \<noteq> []
           then ascii ''**Context, Goals & Constraints:**'' @ LF @ userContext c @ LF
           else INFER_NOTE)"
    by (simp add: analyzeDesign_promptText_parts figmaLine_def contextLine_def)
  have s1: "sublist (userContext c) (api_analyze_promptText c themeMode)" if "userContext c \<noteq> []"
    using that by (simp add: api_analyze_promptText_parts sublist_contextLine)
  have s2: "sublist (userContext c) (analyzeDesign_promptText c mode)" if "trim (userContext c) \<noteq> []"
    using that by (simp add: analyzeDesign_promptText_parts sublist_contextLine)
  have s3: "suffix INFER_NOTE (analyzeDesign_promptText c mode)" if "trim (userContext c) = []"
    using that by (simp add: analyzeDesign_promptText_parts suffix_def)
  show ?thesis
    by (intro conjI impI; (rule p1 p2 s1 s2 s3; assumption))
qed

text \<open>An instance with a URL and a context, and one with a blank context.\<close>

theorem promptText_context_and_url_witness:
  "userContext \<lparr>userContext = ascii ''Checkout page'',
                figmaUrl = Some (ascii ''https://www.figma.com/file/abc'')\<rparr> \<noteq> []
   \<and> trim (userContext \<lparr>userContext = ascii ''Checkout page'',
                figmaUrl = Some (ascii ''https://www.figma.com/file/abc'')\<rparr>) \<noteq> []
   \<and> api_analyze_promptText
        \<lparr>userContext = ascii ''Checkout page'',
         figmaUrl = Some (ascii ''https://www.figma.com/file/abc'')\<rparr> (ascii ''day'') =
       api_analyze_header (ascii ''day'')
         @ ascii ''**Figma URL provided:** https://www.figma.com/file/abc'' @ LF
         @ ascii ''**Context, Goals & Constraints:**'' @ LF @ ascii ''Checkout page'' @ LF
   \<and> analyzeDesign_promptText
        \<lparr>userContext = ascii ''Checkout page'',
         figmaUrl = Some (ascii ''https://www.figma.com/file/abc'')\<rparr> Day =
       analyzeDesign_header Day
         @ ascii ''**Figma URL provided:** https://www.figma.com/file/abc'' @ LF
         @ ascii ''**Context, Goals & Constraints:**'' @ LF @ ascii ''Checkout page'' @ LF
   \<and> sublist (ascii ''Checkout page'')
        (api_analyze_promptText
           \<lparr>userContext = ascii ''Checkout page'',
            figmaUrl = Some (ascii ''https://www.figma.com/file/abc'')\<rparr> (ascii ''day''))
   \<and> sublist (ascii ''Checkout page'')
        (analyzeDesign_promptText
           \<lparr>userContext = ascii ''Checkout page'',
            figmaUrl = Some (ascii ''https://www.figma.com/file/abc'')\<rparr> Day)
   \<and> trim (userContext \<lparr>userContext = ascii ''  '', figmaUrl = None\<rparr>) = []
   \<and> analyzeDesign_promptText \<lparr>userContext = ascii ''  '', figmaUrl = None\<rparr> Night =
       analyzeDesign_header Night @ INFER_NOTE
   \<and> suffix INFER_NOTE
        (analyzeDesign_promptText \<lparr>userContext = ascii ''  '', figmaUrl = None\<rparr> Night)"
proof -
  let ?u = "ascii ''https://www.figma.com/file/abc''"
  let ?c = "\<lparr>userContext = ascii ''Checkout page'', figmaUrl = Some ?u\<rparr>"
  let ?b = "\<lparr>userContext = ascii ''  '', figmaUrl = None\<rparr>"
  have h1: "userContext ?c \<noteq> []" by (simp add: ascii_def)
  have h2: "trim (userContext ?c) \<noteq> []" by (simp add: trim_def isWhiteSpace_def ascii_def)
  have h3: "trim (userContext ?b) = []" by (simp add: trim_def isWhiteSpace_def ascii_def)
  have h4: "?u \<noteq> []" by (simp add: ascii_def)
  have l: "ascii ''**Figma URL provided:** https://www.figma.com/file/abc'' =
             ascii ''**Figma URL provided:** '' @ ?u" by (simp add: ascii_def)
  note t = promptText_context_and_url [of ?c "ascii ''day''" Day]
  note t0 = promptText_context_and_url [of ?b "ascii ''day''" Night]
  have e1: "api_analyze_promptText ?c (ascii ''day'') =
       api_analyze_header (ascii ''day'')
         @ ascii ''**Figma URL provided:** https://www.figma.com/file/abc'' @ LF
         @ ascii ''**Context, Goals & Constraints:**'' @ LF @ ascii ''Checkout page'' @ LF"
    using t [THEN conjunct1] h1 h4 by (simp add: l)
  have e2: "analyzeDesign_promptText ?c Day =
       analyzeDesign_header Day
         @ ascii ''**Figma URL provided:** https://www.figma.com/file/abc'' @ LF
         @ ascii ''**Context, Goals & Constraints:**'' @ LF @ ascii ''Checkout page'' @ LF"
    using t [THEN conjunct2, THEN conjunct1] h2 h4 by (simp add: l)
  have c1: "sublist (userContext ?c) (api_analyze_promptText ?c (ascii ''day''))"
    using t [THEN conjunct2, THEN conjunct2, THEN conjunct1] h1 by (rule mp)
  have c2: "sublist (userContext ?c) (analyzeDesign_promptText ?c Day)"
    using t [THEN conjunct2, THEN conjunct2, THEN conjunct2, THEN conjunct1] h2 by (rule mp)
  have e3: "analyzeDesign_promptText ?b Night = analyzeDesign_header Night @ INFER_NOTE"
    using t0 [THEN conjunct2, THEN conjunct1] h3 by simp
  have c3: "suffix INFER_NOTE (analyzeDesign_promptText ?b Night)"
    using t0 [THEN conjunct2, THEN conjunct2, THEN conjunct2, THEN conjunct2] h3 by (rule mp)
  from h1 h2 e1 e2 c1 c2 h3 e3 c3 show ?thesis by simp
qed


lemmas prompt_eval = api_analyze_promptText_def analyzeDesign_promptText_def
  api_analyze_header_def analyzeDesign_header_def figmaLine_def contextLine_def INFER_NOTE_def
  Let_def trim_def isWhiteSpace_def LF_def ascii_def

text \<open>
  Claim C5 as stated fails on the client for a context that is not empty but blank: a
  context of one TAB is not in the prompt.
\<close>

theorem analyzeDesign_blank_context_not_embedded:
  "userContext \<lparr>userContext = [0x09], figmaUrl = None\<rparr> \<noteq> []
   \<and> \<not> sublist (userContext \<lparr>userContext = [0x09], figmaUrl = None\<rparr>)
         (analyzeDesign_promptText \<lparr>userContext = [0x09], figmaUrl = None\<rparr> Day)"
  by (simp add: sublist_single prompt_eval)

text \<open>
  The server has no \<^verbatim>\<open>else\<close> branch: for an empty context its prompt is the header
  alone, without the note.
\<close>

lemma api_analyze_empty_context_no_note:
  "api_analyze_promptText \<lparr>userContext = [], figmaUrl = None\<rparr> themeMode = api_analyze_header themeMode
   \<and> \<not> sublist INFER_NOTE (api_analyze_header (ascii ''day''))"
proof -
  have "0x28 \<notin> set (api_analyze_header (ascii ''day''))"
    by (simp add: prompt_eval)
  moreover have "0x28 \<in> set INFER_NOTE" by (simp add: prompt_eval)
  ultimately have "\<not> sublist INFER_NOTE (api_analyze_header (ascii ''day''))"
    using set_mono_sublist by blast
  then show ?thesis by (simp add: api_analyze_promptText_parts figmaLine_def)
qed


subsection \<open>The chat replay\<close>

lemma foldl_appendTurn: "foldl appendTurn acc hs = acc @ concat (map turnLine hs)"
  by (induction hs arbitrary: acc) (simp_all add: appendTurn_def)

lemma historyStr_closed:
  "historyStr history message =
     ascii ''--- PREVIOUS CONVERSATION HISTORY ---'' @ LF @ concat (map turnLine history)
       @ ascii ''--- END HISTORY ---'' @ LF @ LF @ ascii ''User's New Request: '' @ message"
  by (simp add: historyStr_def Let_def foldl_appendTurn)

text \<open>
  Claim C6. The replayed history lists the turns in transcript order, one line for each,
  between the two marker lines, and the prompt ends with the line of the new request. A
  turn of role \<^verbatim>\<open>user\<close> is labelled \<^verbatim>\<open>User\<close>, one of role \<^verbatim>\<open>model\<close> is labelled
  \<^verbatim>\<open>Model\<close>. For the transcript user "A", model "B" and the message "C" the text is
  the header, \<^verbatim>\<open>User: A\<close>, \<^verbatim>\<open>Model: B\<close>, the end marker, and the request \<^verbatim>\<open>C\<close>.
\<close>

theorem historyStr_replay:
  "historyStr history message =
     ascii ''--- PREVIOUS CONVERSATION HISTORY ---'' @ LF @ concat (map turnLine history)
       @ ascii ''--- END HISTORY ---'' @ LF @ LF @ ascii ''User's New Request: '' @ message
   \<and> turnLine \<lparr>role = ascii ''user'', text' = t\<rparr> = ascii ''User: '' @ t @ LF
   \<and> turnLine \<lparr>role = ascii ''model'', text' = t\<rparr> = ascii ''Model: '' @ t @ LF
   \<and> historyStr [\<lparr>role = ascii ''user'', text' = ascii ''A''\<rparr>,
                  \<lparr>role = ascii ''model'', text' = ascii ''B''\<rparr>] (ascii ''C'') =
       ascii ''--- PREVIOUS CONVERSATION HISTORY ---'' @ LF
         @ ascii ''User: A'' @ LF @ ascii ''Model: B'' @ LF
         @ ascii ''--- END HISTORY ---'' @ LF @ LF @ ascii ''User's New Request: C''"
proof -
  have "turnLine \<lparr>role = ascii ''user'', text' = t\<rparr> = ascii ''User: '' @ t @ LF" for t
    by (simp add: turnLine_def ascii_def)
  moreover have "turnLine \<lparr>role = ascii ''model'', text' = t\<rparr> = ascii ''Model: '' @ t @ LF" for t
    by (simp add: turnLine_def ascii_def)
  ultimately show ?thesis
    by (simp add: historyStr_closed) (simp add: ascii_def)
qed

text \<open>
  Claim C10. A turn whose role is not the string \<^verbatim>\<open>user\<close> is rendered with the label
  \<^verbatim>\<open>Model\<close>, whatever the role is and wherever the turn stands in the transcript; the
  label \<^verbatim>\<open>User\<close> is produced for the role \<^verbatim>\<open>user\<close> only.
\<close>

theorem historyStr_other_roles:
  "(role m \<noteq> ascii ''user'' \<longrightarrow>
      historyStr (pre @ m # post) message =
        ascii ''--- PREVIOUS CONVERSATION HISTORY ---'' @ LF @ concat (map turnLine pre)
          @ ascii ''Model: '' @ text' m @ LF @ concat (map turnLine post)
          @ ascii ''--- END HISTORY ---'' @ LF @ LF @ ascii ''User's New Request: '' @ message)
   \<and> (role m = ascii ''user'' \<longrightarrow>
      historyStr (pre @ m # post) message =
        ascii ''--- PREVIOUS CONVERSATION HISTORY ---'' @ LF @ concat (map turnLine pre)
          @ ascii ''User: '' @ text' m @ LF @ concat (map turnLine post)
          @ ascii ''--- END HISTORY ---'' @ LF @ LF @ ascii ''User's New Request: '' @ message)"
  by (simp add: historyStr_closed) (simp add: turnLine_def ascii_def)

theorem historyStr_other_roles_witness:
  "role \<lparr>role = ascii ''assistant'', text' = ascii ''B''\<rparr> \<noteq> ascii ''user''
   \<and> historyStr [\<lparr>role = ascii ''user'', text' = ascii ''A''\<rparr>,
                  \<lparr>role = ascii ''assistant'', text' = ascii ''B''\<rparr>] (ascii ''C'') =
       ascii ''--- PREVIOUS CONVERSATION HISTORY ---'' @ LF
         @ ascii ''User: A'' @ LF @ ascii ''Model: B'' @ LF
         @ ascii ''--- END HISTORY ---'' @ LF @ LF @ ascii ''User's New Request: C''"
proof -
  have r: "role \<lparr>role = ascii ''assistant'', text' = ascii ''B''\<rparr> \<noteq> ascii ''user''"
    by (simp add: ascii_def)
  have u: "turnLine \<lparr>role = ascii ''user'', text' = ascii ''A''\<rparr> = ascii ''User: A'' @ LF"
    by (simp add: turnLine_def ascii_def)
  from r historyStr_other_roles
    [of "\<lparr>role = ascii ''assistant'', text' = ascii ''B''\<rparr>"
        "[\<lparr>role = ascii ''user'', text' = ascii ''A''\<rparr>]" "[]" "ascii ''C''"]
  show ?thesis by (simp add: u) (simp add: ascii_def)
qed

subsection \<open>The HTML block of a reply\<close>

lemma matchLazy_html_block:
  assumes "\<forall>j<length pre. \<not> prefix HTML_OPEN (drop j (pre @ HTML_OPEN @ content @ HTML_CLOSE @ post))"
      and "\<forall>k<length content. \<not> prefix HTML_CLOSE (drop k (content @ HTML_CLOSE @ post))"
  shows "matchLazy HTML_OPEN HTML_CLOSE (pre @ HTML_OPEN @ content @ HTML_CLOSE @ post)
           = Some (pre, content, post)"
  by (rule matchLazy_first [OF assms(1) lazyUntil_first [OF assms(2)]])

text \<open>
  Claim C7, as the code has it. For a reply of the model that holds a block opened by
  \<^verbatim>\<open>```html\<close> and a line feed and closed by a line feed and \<^verbatim>\<open>```\<close>, the first such
  block being the one between \<open>pre\<close> and \<open>post\<close>: \<open>extractHtml\<close> returns the content
  of that block as it is, whatever follows it; the text displayed is the reply without the
  block and its markers when the content is not empty, and the reply as it is when the
  content is empty.
\<close>

theorem extractHtml_first_block:
  assumes "\<forall>j<length pre. \<not> prefix HTML_OPEN (drop j (pre @ HTML_OPEN @ content @ HTML_CLOSE @ post))"
      and "\<forall>k<length content. \<not> prefix HTML_CLOSE (drop k (content @ HTML_CLOSE @ post))"
  shows "extractHtml (pre @ HTML_OPEN @ content @ HTML_CLOSE @ post) = Some content
       \<and> displayText \<lparr>role = ascii ''model'',
                       text' = pre @ HTML_OPEN @ content @ HTML_CLOSE @ post\<rparr> =
           (if content = [] then pre @ HTML_OPEN @ content @ HTML_CLOSE @ post else pre @ post)"
  using matchLazy_html_block [OF assms]
  by (simp add: extractHtml_def displayText_def)

text \<open>
  An instance: no backquote before the block and no line feed in its content, so the block
  is the first one and its closing marker is the first one behind it.
\<close>

theorem extractHtml_first_block_witness:
  "0x60 \<notin> set (ascii ''Here: '')
   \<and> 0x0A \<notin> set (ascii ''<div>Hi</div>'')
   \<and> extractHtml (ascii ''Here: '' @ HTML_OPEN @ ascii ''<div>Hi</div>''
                    @ HTML_CLOSE @ ascii '' done'') = Some (ascii ''<div>Hi</div>'')
   \<and> displayText \<lparr>role = ascii ''model'',
                   text' = ascii ''Here: '' @ HTML_OPEN @ ascii ''<div>Hi</div>''
                             @ HTML_CLOSE @ ascii '' done''\<rparr> = ascii ''Here: '' @ ascii '' done''"
proof -
  have n1: "0x60 \<notin> set (ascii ''Here: '')" by (simp add: ascii_def)
  have n2: "0x0A \<notin> set (ascii ''<div>Hi</div>'')" by (simp add: ascii_def)
  have o: "HTML_OPEN = 0x60 # tl HTML_OPEN" by (simp add: HTML_OPEN_def ascii_def)
  have c: "HTML_CLOSE = 0x0A # tl HTML_CLOSE" by (simp add: HTML_CLOSE_def LF_def)
  have h1: "\<forall>j<length (ascii ''Here: '').
      \<not> prefix HTML_OPEN (drop j (ascii ''Here: '' @ HTML_OPEN @ ascii ''<div>Hi</div>''
                                    @ HTML_CLOSE @ ascii '' done''))"
    by (subst o) (use absent_no_prefix [OF n1] in blast)
  have h2: "\<forall>k<length (ascii ''<div>Hi</div>'').
      \<not> prefix HTML_CLOSE (drop k (ascii ''<div>Hi</div>'' @ HTML_CLOSE @ ascii '' done''))"
    by (subst c) (use absent_no_prefix [OF n2] in blast)
  have ne: "ascii ''<div>Hi</div>'' \<noteq> []" by (simp add: ascii_def)
  from extractHtml_first_block [OF h1 h2] n1 n2 ne show ?thesis
    by (simp only: if_False simp_thms)
qed

text \<open>
  Claim C7 as stated fails for a block with empty content: the empty string is extracted,
  it is falsy, and the block with its fence markers stays in the displayed text.
\<close>

theorem displayText_empty_block_kept:
  "extractHtml (ascii ''Here: '' @ HTML_OPEN @ HTML_CLOSE @ ascii '' done'') = Some []
   \<and> displayText \<lparr>role = ascii ''model'',
                   text' = ascii ''Here: '' @ HTML_OPEN @ HTML_CLOSE @ ascii '' done''\<rparr>
        = ascii ''Here: '' @ HTML_OPEN @ HTML_CLOSE @ ascii '' done''
   \<and> ascii ''Here: '' @ HTML_OPEN @ HTML_CLOSE @ ascii '' done'' \<noteq> ascii ''Here: '' @ ascii '' done''"
  by (simp add: extractHtml_def displayText_def HTML_OPEN_def HTML_CLOSE_def LF_def ascii_def matchAt_def)

subsection \<open>The transcript of the chat panel\<close>

lemma messages_handleSend_after:
  "messages (handleSend_after outcome s) =
     messages s @ [\<lparr>role = ascii ''model'',
                    text' = (case outcome of Inr t \<Rightarrow> t | Inl e \<Rightarrow> ERROR_TEXT)\<rparr>]"
  by (cases outcome) (simp_all add: handleSend_after_def Let_def)

text \<open>Over a whole session the transcript only grows at its end.\<close>

lemma prefix_messages_handleSend: "prefix (messages s) (messages (handleSend sendChatMessage s))"
  by (simp add: handleSend_def messages_handleSend_after handleSend_before_def)

lemma prefix_messages_session: "prefix (messages s) (messages (session rounds s))"
proof (induction rounds arbitrary: s)
  case Nil
  show ?case by simp
next
  case (Cons r rounds)
  obtain f v where r: "r = (f, v)" by (cases r)
  have "prefix (messages s) (messages (handleSend f (setInput v s)))"
    using prefix_messages_handleSend [of "setInput v s" f] by (simp add: setInput_def)
  also have "prefix \<dots> (messages (session rounds (handleSend f (setInput v s))))"
    by (rule Cons.IH)
  finally show ?case by (simp add: r)
qed

text \<open>
  Claim C9, as the code has it. A send that is blocked (empty input, or a call outstanding)
  changes nothing. Any other send keeps every turn of the transcript where it is and
  appends two turns: the user's message before the call, and after the call one model
  turn, which is the reply or, when the call failed, the fixed error text. Over a run of
  sends in a panel that stays open the earlier transcript stays a prefix. The transcript
  is state of the panel: closing the panel drops it, and a panel that is opened again
  starts from the history of the session data (there is no panel when there are none),
  which no action of the panel or of the page changes.
\<close>

theorem handleSend_appends:
  "(sendBlocked s \<longrightarrow> handleSend sendChatMessage s = s)
   \<and> (\<not> sendBlocked s \<longrightarrow>
        messages (handleSend_before s) = messages s @ [\<lparr>role = ascii ''user'', text' = input s\<rparr>]
        \<and> messages (handleSend sendChatMessage s) =
            messages s @
              [\<lparr>role = ascii ''user'', text' = input s\<rparr>,
               \<lparr>role = ascii ''model'',
                text' = (case sendChatMessage (messages s) (input s) of
                           Inr responseText \<Rightarrow> responseText
                         | Inl e \<Rightarrow> ERROR_TEXT)\<rparr>])
   \<and> prefix (messages s) (messages (session rounds s))
   \<and> panel (setIsChatOpen False v) = None
   \<and> map_option messages (panel (setIsChatOpen True (setIsChatOpen False v))) =
       map_option history' (chatData v)
   \<and> chatData (setIsChatOpen isOpen v) = chatData v
   \<and> chatData (inPanel act v) = chatData v"
proof -
  have a: "(sendBlocked s \<longrightarrow> handleSend sendChatMessage s = s)
   \<and> (\<not> sendBlocked s \<longrightarrow>
        messages (handleSend_before s) = messages s @ [\<lparr>role = ascii ''user'', text' = input s\<rparr>]
        \<and> messages (handleSend sendChatMessage s) =
            messages s @
              [\<lparr>role = ascii ''user'', text' = input s\<rparr>,
               \<lparr>role = ascii ''model'',
                text' = (case sendChatMessage (messages s) (input s) of
                           Inr responseText \<Rightarrow> responseText
                         | Inl e \<Rightarrow> ERROR_TEXT)\<rparr>])"
    by (simp add: handleSend_def messages_handleSend_after) (simp add: handleSend_before_def)
  have b: "prefix (messages s) (messages (session rounds s))"
    by (rule prefix_messages_session)
  have c: "panel (setIsChatOpen False v) = None"
    by (simp add: setIsChatOpen_def)
  have d: "map_option messages (panel (setIsChatOpen True (setIsChatOpen False v))) =
       map_option history' (chatData v)"
    by (simp add: setIsChatOpen_def ChatInterface_initial_def split: option.splits)
  have e: "chatData (setIsChatOpen isOpen v) = chatData v"
    by (simp add: setIsChatOpen_def split: option.splits)
  have f: "chatData (inPanel act v) = chatData v"
    by (simp add: inPanel_def)
  from a b c d e f show ?thesis by (intro conjI) (erule conjunct1, erule conjunct2, assumption+)
qed

text \<open>An instance: a send that is not blocked, with a reply.\<close>

theorem handleSend_appends_witness:
  "\<not> sendBlocked \<lparr>messages = [\<lparr>role = ascii ''model'', text' = ascii ''Hi''\<rparr>],
                    input = ascii ''Make it blue'', isLoading = False, previewCode = None\<rparr>
   \<and> messages (handleSend (\<lambda>history message. Inr (ascii ''Done''))
         \<lparr>messages = [\<lparr>role = ascii ''model'', text' = ascii ''Hi''\<rparr>],
          input = ascii ''Make it blue'', isLoading = False, previewCode = None\<rparr>) =
       [\<lparr>role = ascii ''model'', text' = ascii ''Hi''\<rparr>,
        \<lparr>role = ascii ''user'', text' = ascii ''Make it blue''\<rparr>,
        \<lparr>role = ascii ''model'', text' = ascii ''Done''\<rparr>]"
proof -
  have b: "\<not> sendBlocked \<lparr>messages = [\<lparr>role = ascii ''model'', text' = ascii ''Hi''\<rparr>],
                    input = ascii ''Make it blue'', isLoading = False, previewCode = None\<rparr>"
    by (simp add: sendBlocked_def trim_def isWhiteSpace_def ascii_def)
  from b handleSend_appends
    [of "\<lparr>messages = [\<lparr>role = ascii ''model'', text' = ascii ''Hi''\<rparr>],
          input = ascii ''Make it blue'', isLoading = False, previewCode = None\<rparr>"
        "\<lambda>history message. Inr (ascii ''Done'')"]
  show ?thesis by simp
qed

text \<open>
  Claim C9 as stated fails without any reset: after a send in an open panel the transcript
  has three turns; the panel is closed and opened again, and the transcript is the one
  turn of the session data.
\<close>

theorem reopened_panel_drops_turns:
  "map_option messages
     (panel (inPanel (handleSend (\<lambda>history message. Inr (ascii ''Done'')) \<circ> setInput (ascii ''Make it blue''))
        (setIsChatOpen True
           \<lparr>chatData = Some \<lparr>history' = [\<lparr>role = ascii ''model'', text' = ascii ''Hi''\<rparr>],
                             lastContext = \<lparr>userContext = [], figmaUrl = None\<rparr>, lastImage = None\<rparr>,
            isChatOpen = False, panel = None\<rparr>))) =
     Some [\<lparr>role = ascii ''model'', text' = ascii ''Hi''\<rparr>,
           \<lparr>role = ascii ''user'', text' = ascii ''Make it blue''\<rparr>,
           \<lparr>role = ascii ''model'', text' = ascii ''Done''\<rparr>]
   \<and> map_option messages
     (panel (setIsChatOpen True (setIsChatOpen False
        (inPanel (handleSend (\<lambda>history message. Inr (ascii ''Done'')) \<circ> setInput (ascii ''Make it blue''))
          (setIsChatOpen True
             \<lparr>chatData = Some \<lparr>history' = [\<lparr>role = ascii ''model'', text' = ascii ''Hi''\<rparr>],
                               lastContext = \<lparr>userContext = [], figmaUrl = None\<rparr>, lastImage = None\<rparr>,
              isChatOpen = False, panel = None\<rparr>))))) =
     Some [\<lparr>role = ascii ''model'', text' = ascii ''Hi''\<rparr>]"
proof -
  have t: "trim (ascii ''Make it blue'') \<noteq> []"
    by (simp add: trim_def isWhiteSpace_def ascii_def)
  show ?thesis
    by (simp add: setIsChatOpen_def inPanel_def ChatInterface_initial_def setInput_def
        handleSend_def sendBlocked_def t messages_handleSend_after handleSend_before_def)
qed

subsection \<open>The theme decision\<close>


end
